theory Spec2Isabelle
  imports Main "HOL-Library.Word" "HOL-Library.Monad_Syntax" "HOL-Library.Sublist"
begin

section \<open>The expense tracker of \<^verbatim>\<open>src/app/page.tsx\<close>\<close>

text \<open>
  The page component keeps a list of transactions and a form in React state, mirrors the
  list to \<^verbatim>\<open>localStorage\<close>, and derives a filtered list and three totals from it.
  Each handler and each \<^verbatim>\<open>useMemo\<close> body is embedded as a function on an explicit
  state record. What the handlers read from the platform (the clock, the random number
  generator, the time zone, the storage) is passed in as arguments.
\<close>

subsection \<open>Strings and numbers of the platform\<close>

text \<open>
  A JavaScript string is a sequence of 16-bit code units. \<open>ascii\<close> embeds an ASCII
  literal.
\<close>

type_synonym jsstring = "16 word list"

definition ascii :: "string \<Rightarrow> jsstring" where
  "ascii s = map (\<lambda>c. of_nat (of_char c)) s"

text \<open>
  A JavaScript number, as far as this program computes with one: a whole number,
  \<^verbatim>\<open>NaN\<close>, or an infinity. The platform holds a number as a double; of the whole numbers
  these are the ones with at most 53 significant bits, below \<open>2^1024\<close>.
\<close>

datatype jsnum = Num int | NaN | PosInfinity | NegInfinity

text \<open>The number of binary digits of a positive whole number.\<close>

function bitLength :: "int \<Rightarrow> nat" where
  "bitLength a = (if a \<le> 0 then 0 else Suc (bitLength (a div 2)))"
  by pat_completeness auto
termination by (relation "measure nat") auto

declare bitLength.simps [simp del]

text \<open>
  The multiple of \<open>2^e\<close> nearest to \<open>a\<close>; of two that are equally near, the even
  multiple.
\<close>

definition roundToEven :: "int \<Rightarrow> nat \<Rightarrow> int" where
  "roundToEven a e =
     (let q = a div 2 ^ e; r = a mod 2 ^ e
      in (if 2 ^ e < 2 * r \<or> (2 * r = 2 ^ e \<and> odd q) then q + 1 else q) * 2 ^ e)"

text \<open>
  The double nearest to a whole number: the magnitude is rounded to 53 significant bits,
  and a result of \<open>2^1024\<close> or more is an infinity. This is the value that the platform
  holds for a number read from digits and for the exact result of a sum.
\<close>

definition toDouble :: "int \<Rightarrow> jsnum" where
  "toDouble n =
     (let a = \<bar>n\<bar>; v = roundToEven a (bitLength a - 53)
      in if 2 ^ 1024 \<le> v then (if n < 0 then NegInfinity else PosInfinity)
         else Num (if n < 0 then - v else v))"

text \<open>A whole number that is a double.\<close>

definition isDouble :: "int \<Rightarrow> bool" where
  "isDouble n = (toDouble n = Num n)"

text \<open>\<^verbatim>\<open>-a\<close>, \<^verbatim>\<open>a + b\<close> and \<^verbatim>\<open>a - b\<close> on doubles.\<close>

fun js_neg :: "jsnum \<Rightarrow> jsnum" where
  "js_neg (Num n) = Num (- n)"
| "js_neg NaN = NaN"
| "js_neg PosInfinity = NegInfinity"
| "js_neg NegInfinity = PosInfinity"

fun js_add :: "jsnum \<Rightarrow> jsnum \<Rightarrow> jsnum" where
  "js_add (Num a) (Num b) = toDouble (a + b)"
| "js_add NaN _ = NaN"
| "js_add _ NaN = NaN"
| "js_add PosInfinity NegInfinity = NaN"
| "js_add NegInfinity PosInfinity = NaN"
| "js_add PosInfinity _ = PosInfinity"
| "js_add _ PosInfinity = PosInfinity"
| "js_add NegInfinity _ = NegInfinity"
| "js_add _ NegInfinity = NegInfinity"

definition js_sub :: "jsnum \<Rightarrow> jsnum \<Rightarrow> jsnum" where
  "js_sub a b = js_add a (js_neg b)"

text \<open>\<^verbatim>\<open>a >= b\<close> and \<^verbatim>\<open>a <= b\<close>: every comparison with \<^verbatim>\<open>NaN\<close> is false.\<close>

fun js_le :: "jsnum \<Rightarrow> jsnum \<Rightarrow> bool" where
  "js_le NaN _ = False"
| "js_le _ NaN = False"
| "js_le NegInfinity _ = True"
| "js_le _ PosInfinity = True"
| "js_le (Num a) (Num b) = (a \<le> b)"
| "js_le PosInfinity _ = False"
| "js_le _ NegInfinity = False"

definition js_ge :: "jsnum \<Rightarrow> jsnum \<Rightarrow> bool" where
  "js_ge a b = js_le b a"

text \<open>\<^verbatim>\<open>a > b\<close>.\<close>

definition js_gt :: "jsnum \<Rightarrow> jsnum \<Rightarrow> bool" where
  "js_gt a b = (js_le b a \<and> a \<noteq> b)"

text \<open>\<^verbatim>\<open>!x\<close> for a number \<open>x\<close>: zero and \<^verbatim>\<open>NaN\<close> are falsy.\<close>

fun js_falsy :: "jsnum \<Rightarrow> bool" where
  "js_falsy (Num n) = (n = 0)"
| "js_falsy NaN = True"
| "js_falsy _ = False"

text \<open>
  White space and line terminators, the code units \<^verbatim>\<open>String.prototype.trim\<close> and
  \<^verbatim>\<open>parseInt\<close> strip.
\<close>

definition isWhiteSpace :: "16 word \<Rightarrow> bool" where
  "isWhiteSpace c =
     (c = 0x09 \<or> c = 0x0A \<or> c = 0x0B \<or> c = 0x0C \<or> c = 0x0D \<or> c = 0x20 \<or> c = 0xA0
      \<or> c = 0x1680 \<or> (0x2000 \<le> c \<and> c \<le> 0x200A) \<or> c = 0x2028 \<or> c = 0x2029
      \<or> c = 0x202F \<or> c = 0x205F \<or> c = 0x3000 \<or> c = 0xFEFF)"

definition trimStart :: "jsstring \<Rightarrow> jsstring" where
  "trimStart s = dropWhile isWhiteSpace s"

definition trim :: "jsstring \<Rightarrow> jsstring" where
  "trim s = rev (dropWhile isWhiteSpace (rev (dropWhile isWhiteSpace s)))"

definition isDigit :: "16 word \<Rightarrow> bool" where
  "isDigit c = (0x30 \<le> c \<and> c \<le> 0x39)"

definition digitVal :: "16 word \<Rightarrow> int" where
  "digitVal c = uint c - 48"

text \<open>The value of a string of decimal digits, most significant first.\<close>

definition digitsVal :: "jsstring \<Rightarrow> int" where
  "digitsVal ds = foldl (\<lambda>acc c. 10 * acc + digitVal c) 0 ds"

text \<open>
  \<^verbatim>\<open>parseInt(s, 10)\<close>: leading white space is skipped, one sign is read, then the longest
  run of decimal digits; no digit gives \<^verbatim>\<open>NaN\<close>. The result is the whole number that the
  digits denote; where the program keeps it in a record, \<open>toDouble\<close> gives the double that
  the platform holds for it.
\<close>

definition parseInt :: "jsstring \<Rightarrow> jsnum" where
  "parseInt s =
     (let t = trimStart s;
          neg = (t \<noteq> [] \<and> hd t = 0x2D);
          u = (if t \<noteq> [] \<and> (hd t = 0x2B \<or> hd t = 0x2D) then tl t else t);
          z = takeWhile isDigit u
      in if z = [] then NaN else Num ((if neg then -1 else 1) * digitsVal z))"

text \<open>\<^verbatim>\<open>s.replace(/\D/g, "")\<close>: every code unit that is not a decimal digit is removed.\<close>

definition removeNonDigits :: "jsstring \<Rightarrow> jsstring" where
  "removeNonDigits s = filter isDigit s"

text \<open>
  \<^verbatim>\<open>String(n)\<close> for a whole number \<open>n\<close> below \<open>2^53\<close> in magnitude, as every time
  value is: its decimal digits.
\<close>

fun natToString :: "nat \<Rightarrow> jsstring" where
  "natToString n =
     (if n < 10 then [of_nat (48 + n)]
      else natToString (n div 10) @ [of_nat (48 + n mod 10)])"

declare natToString.simps [simp del]

definition intToString :: "int \<Rightarrow> jsstring" where
  "intToString i = (if i < 0 then 0x2D # natToString (nat (- i)) else natToString (nat i))"

text \<open>
  \<^verbatim>\<open>String(x)\<close> for any whole number \<open>x\<close> that is a double (\<^verbatim>\<open>Number::toString\<close> of
  ECMA-262). The digits written are those of the decimal \<open>s * 10^e\<close> with the fewest digits
  \<open>s\<close> that reads back as \<open>x\<close>, and of several such the one nearest to \<open>x\<close>.
  \<open>candidates x k n\<close> are the decimals of \<open>k\<close> digits and magnitude \<open>10^n\<close> on either
  side of \<open>x\<close> that read back as \<open>x\<close>.
\<close>

definition digitCount :: "int \<Rightarrow> nat" where
  "digitCount x = length (natToString (nat x))"

definition candidates :: "int \<Rightarrow> nat \<Rightarrow> nat \<Rightarrow> (int \<times> nat) list" where
  "candidates x k n =
     (if k \<le> n then
        filter (\<lambda>(s, e). 10 ^ (k - 1) \<le> s \<and> s < 10 ^ k \<and> toDouble (s * 10 ^ e) = Num x)
          [(x div 10 ^ (n - k), n - k), (x div 10 ^ (n - k) + 1, n - k)]
      else [])"

definition nearer :: "int \<Rightarrow> int \<times> nat \<Rightarrow> int \<times> nat \<Rightarrow> int \<times> nat" where
  "nearer x c d =
     (let dc = \<bar>fst c * 10 ^ snd c - x\<bar>; dd = \<bar>fst d * 10 ^ snd d - x\<bar>
      in if dd < dc \<or> (dd = dc \<and> even (fst d) \<and> odd (fst c)) then d else c)"

definition nearest :: "int \<Rightarrow> (int \<times> nat) list \<Rightarrow> (int \<times> nat) option" where
  "nearest x cs = (case cs of [] \<Rightarrow> None | c # r \<Rightarrow> Some (foldl (nearer x) c r))"

primrec firstSome :: "('a \<Rightarrow> 'b option) \<Rightarrow> 'a list \<Rightarrow> 'b option" where
  "firstSome f [] = None"
| "firstSome f (x # xs) = (case f x of Some y \<Rightarrow> Some y | None \<Rightarrow> firstSome f xs)"

text \<open>
  The digits \<open>s\<close> and the exponent \<open>e\<close> for a positive \<open>x\<close>: the search goes from one
  digit up to the number of digits of \<open>x\<close>, with which \<open>x\<close> itself is found.
\<close>

definition shortest :: "int \<Rightarrow> int \<times> nat" where
  "shortest x =
     (let D = digitCount x
      in case firstSome (\<lambda>k. nearest x (candidates x k D @ candidates x k (Suc D))) [1..<Suc D] of
           Some c \<Rightarrow> c
         | None \<Rightarrow> (x, 0))"

text \<open>
  A number of up to 21 digits is written out, with zeros in place of the exponent; a
  longer one is written in exponent form, as in \<^verbatim>\<open>1e+21\<close> and \<^verbatim>\<open>1.5e+300\<close>.
\<close>

definition numberToString :: "int \<Rightarrow> jsstring" where
  "numberToString x =
     (if x = 0 then [0x30]
      else
        (let (s, e) = shortest \<bar>x\<bar>;
             ds = natToString (nat s);
             k = length ds;
             n = k + e;
             body = (if n \<le> 21 then ds @ replicate e 0x30
                     else hd ds # (if k = 1 then [] else 0x2E # tl ds)
                          @ [0x65, 0x2B] @ natToString (n - 1))
         in if x < 0 then 0x2D # body else body))"

subsection \<open>Dates of the platform\<close>

text \<open>
  A \<^verbatim>\<open>Date\<close> object is its time value: milliseconds since the epoch in UTC, or
  \<^verbatim>\<open>NaN\<close> for an invalid date. The definitions are those of ECMA-262 (Day, DayFromYear,
  MakeDay, MakeTime, MakeDate, TimeClip). The local time zone is one fixed offset
  \<open>tza\<close>, in milliseconds east of UTC; daylight saving changes are not modelled.
\<close>

definition msPerDay :: int where
  "msPerDay = 86400000"

definition Day :: "int \<Rightarrow> int" where
  "Day t = t div msPerDay"

definition TimeWithinDay :: "int \<Rightarrow> int" where
  "TimeWithinDay t = t mod msPerDay"

definition InLeapYear :: "int \<Rightarrow> bool" where
  "InLeapYear y = (y mod 4 = 0 \<and> (y mod 100 \<noteq> 0 \<or> y mod 400 = 0))"

definition DayFromYear :: "int \<Rightarrow> int" where
  "DayFromYear y =
     365 * (y - 1970) + (y - 1969) div 4 - (y - 1901) div 100 + (y - 1601) div 400"

text \<open>
  The year of a day number: the largest \<open>y\<close> with \<open>DayFromYear y \<le> d\<close>, computed from
  the mean year length and one adjustment.
\<close>

definition YearFromDay :: "int \<Rightarrow> int" where
  "YearFromDay d =
     (let y = 1970 + (400 * d) div 146097
      in if d < DayFromYear y then y - 1
         else if DayFromYear (y + 1) \<le> d then y + 1 else y)"

text \<open>The day within the year on which month \<open>m\<close> (0 to 11) starts.\<close>

definition monthStart :: "bool \<Rightarrow> int \<Rightarrow> int" where
  "monthStart leap m =
     (let l = (if leap then 1 else 0)
      in if m = 0 then 0 else if m = 1 then 31 else if m = 2 then 59 + l
         else if m = 3 then 90 + l else if m = 4 then 120 + l else if m = 5 then 151 + l
         else if m = 6 then 181 + l else if m = 7 then 212 + l else if m = 8 then 243 + l
         else if m = 9 then 273 + l else if m = 10 then 304 + l else 334 + l)"

definition MonthFromDayWithinYear :: "bool \<Rightarrow> int \<Rightarrow> int" where
  "MonthFromDayWithinYear leap dwy =
     (let l = (if leap then 1 else 0)
      in if dwy < 31 then 0 else if dwy < 59 + l then 1 else if dwy < 90 + l then 2
         else if dwy < 120 + l then 3 else if dwy < 151 + l then 4
         else if dwy < 181 + l then 5 else if dwy < 212 + l then 6
         else if dwy < 243 + l then 7 else if dwy < 273 + l then 8
         else if dwy < 304 + l then 9 else if dwy < 334 + l then 10 else 11)"

definition YearFromTime :: "int \<Rightarrow> int" where
  "YearFromTime t = YearFromDay (Day t)"

definition DayWithinYear :: "int \<Rightarrow> int" where
  "DayWithinYear t = Day t - DayFromYear (YearFromTime t)"

definition MonthFromTime :: "int \<Rightarrow> int" where
  "MonthFromTime t = MonthFromDayWithinYear (InLeapYear (YearFromTime t)) (DayWithinYear t)"

definition DateFromTime :: "int \<Rightarrow> int" where
  "DateFromTime t =
     DayWithinYear t - monthStart (InLeapYear (YearFromTime t)) (MonthFromTime t) + 1"

definition MakeDay :: "int \<Rightarrow> int \<Rightarrow> int \<Rightarrow> int" where
  "MakeDay year month date =
     (let ym = year + month div 12; mn = month mod 12
      in DayFromYear ym + monthStart (InLeapYear ym) mn + date - 1)"

definition MakeTime :: "int \<Rightarrow> int \<Rightarrow> int \<Rightarrow> int \<Rightarrow> int" where
  "MakeTime h mi sec ms = h * 3600000 + mi * 60000 + sec * 1000 + ms"

definition MakeDate :: "int \<Rightarrow> int \<Rightarrow> int" where
  "MakeDate day time = day * msPerDay + time"

definition maxTime :: int where
  "maxTime = 8640000000000000"

definition TimeClip :: "int \<Rightarrow> jsnum" where
  "TimeClip t = (if abs t > maxTime then NaN else Num t)"

definition LocalTime :: "int \<Rightarrow> int \<Rightarrow> int" where
  "LocalTime tza t = t + tza"

definition UTC :: "int \<Rightarrow> int \<Rightarrow> int" where
  "UTC tza t = t - tza"

text \<open>
  \<^verbatim>\<open>new Date(year, month, date, h, mi, sec, ms)\<close>: the components are local time. A year
  from 0 to 99 stands for 1900 plus that year. A component that is not a finite number
  gives an invalid date.
\<close>

fun newDate :: "int \<Rightarrow> jsnum \<Rightarrow> jsnum \<Rightarrow> jsnum \<Rightarrow> int \<Rightarrow> int \<Rightarrow> int \<Rightarrow> int \<Rightarrow> jsnum" where
  "newDate tza (Num y) (Num m) (Num dt) h mi sec ms =
     (let yr = (if 0 \<le> y \<and> y \<le> 99 then 1900 + y else y)
      in TimeClip (UTC tza (MakeDate (MakeDay yr m dt) (MakeTime h mi sec ms))))"
| "newDate tza _ _ _ h mi sec ms = NaN"

text \<open>\<^verbatim>\<open>getFullYear\<close>, \<^verbatim>\<open>getMonth\<close>, \<^verbatim>\<open>getDate\<close> (local time) and \<^verbatim>\<open>getTime\<close>.\<close>

fun getFullYear :: "int \<Rightarrow> jsnum \<Rightarrow> jsnum" where
  "getFullYear tza (Num t) = Num (YearFromTime (LocalTime tza t))"
| "getFullYear tza _ = NaN"

fun getMonth :: "int \<Rightarrow> jsnum \<Rightarrow> jsnum" where
  "getMonth tza (Num t) = Num (MonthFromTime (LocalTime tza t))"
| "getMonth tza _ = NaN"

fun getDate :: "int \<Rightarrow> jsnum \<Rightarrow> jsnum" where
  "getDate tza (Num t) = Num (DateFromTime (LocalTime tza t))"
| "getDate tza _ = NaN"

definition getTime :: "jsnum \<Rightarrow> jsnum" where
  "getTime d = d"

text \<open>
  \<^verbatim>\<open>new Date(string)\<close>, for the date time string format of ECMA-262:
  \<^verbatim>\<open>YYYY[-MM[-DD]][THH:mm[:ss[.sss]][Z|+HH:mm|-HH:mm]]\<close>, the year of four digits or of a
  sign and six digits. A form without a time is UTC, a form with a time and no offset is
  local time. What an engine does with a string outside the format is its own choice;
  here such a string is an invalid date.
\<close>

definition takeDigits :: "nat \<Rightarrow> jsstring \<Rightarrow> (int \<times> jsstring) option" where
  "takeDigits n s =
     (if n \<le> length s \<and> list_all isDigit (take n s)
      then Some (digitsVal (take n s), drop n s) else None)"

definition expect :: "16 word \<Rightarrow> jsstring \<Rightarrow> jsstring option" where
  "expect c s = (case s of [] \<Rightarrow> None | x # r \<Rightarrow> if x = c then Some r else None)"

definition startsWith :: "16 word \<Rightarrow> jsstring \<Rightarrow> bool" where
  "startsWith c s = (s \<noteq> [] \<and> hd s = c)"

definition parseYear :: "jsstring \<Rightarrow> (int \<times> jsstring) option" where
  "parseYear s =
     (if startsWith 0x2B s then takeDigits 6 (tl s)
      else if startsWith 0x2D s then
        do { (y, r) \<leftarrow> takeDigits 6 (tl s); if y = 0 then None else Some (- y, r) }
      else takeDigits 4 s)"

definition parseDatePart :: "jsstring \<Rightarrow> ((int \<times> int \<times> int) \<times> jsstring) option" where
  "parseDatePart s =
     do { (y, r1) \<leftarrow> parseYear s;
          if startsWith 0x2D r1 then
            do { (m, r2) \<leftarrow> takeDigits 2 (tl r1);
                 if m < 1 \<or> 12 < m then None
                 else if startsWith 0x2D r2 then
                   do { (d, r3) \<leftarrow> takeDigits 2 (tl r2);
                        if d < 1 \<or> 31 < d then None else Some ((y, m, d), r3) }
                 else Some ((y, m, 1), r2) }
          else Some ((y, 1, 1), r1) }"

definition parseSeconds :: "jsstring \<Rightarrow> ((int \<times> int) \<times> jsstring) option" where
  "parseSeconds s =
     (if startsWith 0x3A s then
        do { (sec, r1) \<leftarrow> takeDigits 2 (tl s);
             if 59 < sec then None
             else if startsWith 0x2E r1 then
               do { (ms, r2) \<leftarrow> takeDigits 3 (tl r1); Some ((sec, ms), r2) }
             else Some ((sec, 0), r1) }
      else Some ((0, 0), s))"

definition parseTimePart :: "jsstring \<Rightarrow> (int \<times> jsstring) option" where
  "parseTimePart s =
     do { (h, r1) \<leftarrow> takeDigits 2 s;
          r2 \<leftarrow> expect 0x3A r1;
          (mi, r3) \<leftarrow> takeDigits 2 r2;
          ((sec, ms), r4) \<leftarrow> parseSeconds r3;
          if 24 < h \<or> 59 < mi \<or> (h = 24 \<and> (mi \<noteq> 0 \<or> sec \<noteq> 0 \<or> ms \<noteq> 0)) then None
          else Some (MakeTime h mi sec ms, r4) }"

text \<open>The offset to subtract: \<open>None\<close> inside stands for local time.\<close>

definition parseOffset :: "jsstring \<Rightarrow> int option option" where
  "parseOffset s =
     (if s = [] then Some None
      else if s = [0x5A] then Some (Some 0)
      else if startsWith 0x2B s \<or> startsWith 0x2D s then
        do { (h, r1) \<leftarrow> takeDigits 2 (tl s);
             r2 \<leftarrow> expect 0x3A r1;
             (mi, r3) \<leftarrow> takeDigits 2 r2;
             if r3 \<noteq> [] \<or> 23 < h \<or> 59 < mi then None
             else Some (Some ((if startsWith 0x2D s then -1 else 1) * MakeTime h mi 0 0)) }
      else None)"

definition parseDateString :: "int \<Rightarrow> jsstring \<Rightarrow> int option" where
  "parseDateString tza s =
     do { ((y, m, d), r1) \<leftarrow> parseDatePart s;
          if r1 = [] then Some (MakeDate (MakeDay y (m - 1) d) 0)
          else
            do { r2 \<leftarrow> expect 0x54 r1;
                 (time, r3) \<leftarrow> parseTimePart r2;
                 off \<leftarrow> parseOffset r3;
                 Some (MakeDate (MakeDay y (m - 1) d) time
                       - (case off of None \<Rightarrow> tza | Some z \<Rightarrow> z)) } }"

definition Date_parse :: "int \<Rightarrow> jsstring \<Rightarrow> jsnum" where
  "Date_parse tza s = (case parseDateString tza s of None \<Rightarrow> NaN | Some t \<Rightarrow> TimeClip t)"

text \<open>
  \<^verbatim>\<open>toISOString\<close> of a valid date: \<^verbatim>\<open>YYYY-MM-DDTHH:mm:ss.sssZ\<close> in UTC, the year of a
  sign and six digits outside 0 to 9999.
\<close>

definition padDigits :: "nat \<Rightarrow> int \<Rightarrow> jsstring" where
  "padDigits n i = (let ds = natToString (nat i) in replicate (n - length ds) 0x30 @ ds)"

definition yearToString :: "int \<Rightarrow> jsstring" where
  "yearToString y =
     (if 0 \<le> y \<and> y \<le> 9999 then padDigits 4 y
      else if y < 0 then 0x2D # padDigits 6 (- y) else 0x2B # padDigits 6 y)"

definition toISOString :: "int \<Rightarrow> jsstring" where
  "toISOString t =
     (let w = TimeWithinDay t
      in yearToString (YearFromTime t) @ [0x2D] @ padDigits 2 (MonthFromTime t + 1) @ [0x2D]
         @ padDigits 2 (DateFromTime t) @ [0x54] @ padDigits 2 (w div 3600000) @ [0x3A]
         @ padDigits 2 (w mod 3600000 div 60000) @ [0x3A]
         @ padDigits 2 (w mod 60000 div 1000) @ [0x2E] @ padDigits 3 (w mod 1000) @ [0x5A])"

subsection \<open>Data model\<close>

text \<open>\<^verbatim>\<open>type TransactionType = "Chi tieu" | "Thu nhap"\<close>: expense and income.\<close>

datatype TransactionType = ChiTieu | ThuNhap

text \<open>
  \<^verbatim>\<open>interface Transaction\<close>. The amount is a number: a record made by the form carries
  the double of a digit string, which is a whole number or, from 309 digits on, infinity.
\<close>

record Transaction =
  id :: jsstring
  name :: jsstring
  amount :: jsnum
  type :: TransactionType
  createdAt :: jsstring

datatype FilterMode = FilterAll | FilterRange | FilterMonth

text \<open>The \<^verbatim>\<open>useState\<close> cells of \<^verbatim>\<open>Home\<close> that the store and the filter read.\<close>

record state =
  transactions :: "Transaction list"
  formName :: jsstring
  formAmount :: jsstring
  formType :: TransactionType
  filterMode :: FilterMode
  filterStart :: jsstring
  filterEnd :: jsstring
  filterMonth :: jsstring

definition initialState :: state where
  "initialState =
     \<lparr> transactions = [], formName = [], formAmount = [], formType = ChiTieu,
       filterMode = FilterAll, filterStart = [], filterEnd = [], filterMonth = [] \<rparr>"

subsection \<open>Adding a transaction\<close>

text \<open>
  What \<^verbatim>\<open>handleAddTransaction\<close> reads from the platform: \<^verbatim>\<open>Date.now()\<close> for the id,
  the digits of \<^verbatim>\<open>Math.random().toString(16).slice(2)\<close>, and the time value of
  \<^verbatim>\<open>new Date()\<close> for \<^verbatim>\<open>createdAt\<close>.
\<close>

record clock =
  dateNow :: int
  randomHex :: jsstring
  newDateNow :: int

definition newId :: "int \<Rightarrow> jsstring \<Rightarrow> jsstring" where
  "newId now rnd = intToString now @ [0x2D] @ rnd"

text \<open>
  \<^verbatim>\<open>handleAddTransaction\<close>. The guard returns early and leaves every state cell as it
  is; otherwise the new record is put in front and the form is reset. The guard reads the
  same on the digits' whole number as on its double, which is zero, negative or positive
  with it; the record gets the double.
\<close>

definition handleAddTransaction :: "clock \<Rightarrow> state \<Rightarrow> state" where
  "handleAddTransaction env s =
     (let rawDigits = removeNonDigits (formAmount s);
          numericAmount = parseInt rawDigits
      in case numericAmount of
           Num n \<Rightarrow>
             if trim (formName s) = [] \<or> n \<le> 0 then s
             else
               (let newTransaction =
                      \<lparr> id = newId (dateNow env) (randomHex env),
                        name = trim (formName s),
                        amount = toDouble n,
                        type = formType s,
                        createdAt = toISOString (newDateNow env) \<rparr>
                in s\<lparr> transactions := newTransaction # transactions s,
                      formName := [], formAmount := [], formType := ChiTieu \<rparr>)
         | _ \<Rightarrow> s)"

subsection \<open>The date filter\<close>

text \<open>\<^verbatim>\<open>s.split("-")\<close>, for any separator code unit.\<close>

fun splitOn :: "16 word \<Rightarrow> jsstring \<Rightarrow> jsstring list" where
  "splitOn sep [] = [[]]"
| "splitOn sep (c # cs) =
     (if c = sep then [] # splitOn sep cs
      else (case splitOn sep cs of p # ps \<Rightarrow> (c # p) # ps | [] \<Rightarrow> [[c]]))"

text \<open>\<^verbatim>\<open>m - 1\<close> on a number.\<close>

fun js_pred :: "jsnum \<Rightarrow> jsnum" where
  "js_pred (Num n) = Num (n - 1)"
| "js_pred x = x"

definition startOfDay :: "int \<Rightarrow> jsnum \<Rightarrow> jsnum" where
  "startOfDay tza d = newDate tza (getFullYear tza d) (getMonth tza d) (getDate tza d) 0 0 0 0"

definition endOfDay :: "int \<Rightarrow> jsnum \<Rightarrow> jsnum" where
  "endOfDay tza d =
     newDate tza (getFullYear tza d) (getMonth tza d) (getDate tza d) 23 59 59 999"

text \<open>The predicate both filters apply: \<^verbatim>\<open>ms >= startMs && ms <= endMs\<close>.\<close>

definition inWindow :: "int \<Rightarrow> jsnum \<Rightarrow> jsnum \<Rightarrow> Transaction \<Rightarrow> bool" where
  "inWindow tza startMs endMs t =
     (let ms = getTime (Date_parse tza (createdAt t)) in js_ge ms startMs \<and> js_le ms endMs)"

text \<open>
  The \<^verbatim>\<open>month\<close> branch of \<^verbatim>\<open>filteredTransactions\<close>. In \<^verbatim>\<open>const [y, m] = ...\<close> a
  missing second part leaves \<^verbatim>\<open>m\<close> undefined, which is falsy.
\<close>

definition filterByMonth :: "int \<Rightarrow> jsstring \<Rightarrow> Transaction list \<Rightarrow> Transaction list" where
  "filterByMonth tza fm ts =
     (if fm = [] then ts
      else case map parseInt (splitOn 0x2D fm) of
        y # m # _ \<Rightarrow>
          if js_falsy y \<or> js_falsy m then ts
          else
            (let start = newDate tza y (js_pred m) (Num 1) 0 0 0 0;
                 end = newDate tza y m (Num 0) 23 59 59 999;
                 startMs = getTime start;
                 endMs = getTime end
             in filter (inWindow tza startMs endMs) ts)
      | _ \<Rightarrow> ts)"

text \<open>The \<^verbatim>\<open>range\<close> branch. A \<^verbatim>\<open>Date\<close> object is truthy also when it is invalid.\<close>

definition filterByRange ::
  "int \<Rightarrow> jsstring \<Rightarrow> jsstring \<Rightarrow> Transaction list \<Rightarrow> Transaction list" where
  "filterByRange tza fs fe ts =
     (let start = (if fs \<noteq> [] then Some (startOfDay tza (Date_parse tza fs)) else None);
          end = (if fe \<noteq> [] then Some (endOfDay tza (Date_parse tza fe)) else None);
          startMs = (case start of Some d \<Rightarrow> getTime d | None \<Rightarrow> NegInfinity);
          endMs = (case end of Some d \<Rightarrow> getTime d | None \<Rightarrow> PosInfinity)
      in filter (inWindow tza startMs endMs) ts)"

definition filteredTransactions :: "int \<Rightarrow> state \<Rightarrow> Transaction list" where
  "filteredTransactions tza s =
     (if filterMode s = FilterAll then transactions s
      else if filterMode s = FilterMonth then filterByMonth tza (filterMonth s) (transactions s)
      else filterByRange tza (filterStart s) (filterEnd s) (transactions s))"

subsection \<open>Removing a transaction\<close>

text \<open>\<^verbatim>\<open>handleDeleteTransaction\<close>: \<^verbatim>\<open>prev.filter((t) => t.id !== id)\<close>.\<close>

definition handleDeleteTransaction :: "jsstring \<Rightarrow> state \<Rightarrow> state" where
  "handleDeleteTransaction i s =
     s\<lparr>transactions := filter (\<lambda>t. id t \<noteq> i) (transactions s)\<rparr>"

subsection \<open>Totals\<close>

text \<open>
  \<^verbatim>\<open>totalExpense\<close>, \<^verbatim>\<open>totalIncome\<close> and \<^verbatim>\<open>balance\<close>, over the filtered list:
  \<^verbatim>\<open>.filter(...).reduce((sum, t) => sum + t.amount, 0)\<close>. Every step of the sum and the
  difference is an operation on doubles.
\<close>

definition totalExpense :: "Transaction list \<Rightarrow> jsnum" where
  "totalExpense ts =
     foldl (\<lambda>sum t. js_add sum (amount t)) (Num 0) (filter (\<lambda>t. type t = ChiTieu) ts)"

definition totalIncome :: "Transaction list \<Rightarrow> jsnum" where
  "totalIncome ts =
     foldl (\<lambda>sum t. js_add sum (amount t)) (Num 0) (filter (\<lambda>t. type t = ThuNhap) ts)"

definition balance :: "Transaction list \<Rightarrow> jsnum" where
  "balance ts = js_sub (totalIncome ts) (totalExpense ts)"

subsection \<open>JSON text\<close>

text \<open>
  The values \<^verbatim>\<open>JSON.parse\<close> builds. A number is kept as the decimal it was written as:
  \<open>JNumber m e\<close> stands for \<open>m\<close> times ten to the power \<open>e\<close>. An object is its
  members in the order of the text.
\<close>

datatype json =
    JNull
  | JBool bool
  | JNumber int int
  | JString jsstring
  | JArray "json list"
  | JObject "(jsstring \<times> json) list"

definition isJsonWs :: "16 word \<Rightarrow> bool" where
  "isJsonWs c = (c = 0x20 \<or> c = 0x09 \<or> c = 0x0A \<or> c = 0x0D)"

definition skipWs :: "jsstring \<Rightarrow> jsstring" where
  "skipWs s = dropWhile isJsonWs s"

definition hexDigit :: "16 word \<Rightarrow> int option" where
  "hexDigit c =
     (if isDigit c then Some (uint c - 48)
      else if 0x61 \<le> c \<and> c \<le> 0x66 then Some (uint c - 87)
      else if 0x41 \<le> c \<and> c \<le> 0x46 then Some (uint c - 55)
      else None)"

definition hex4 :: "16 word \<Rightarrow> 16 word \<Rightarrow> 16 word \<Rightarrow> 16 word \<Rightarrow> 16 word option" where
  "hex4 a b c d =
     do { w \<leftarrow> hexDigit a; x \<leftarrow> hexDigit b; y \<leftarrow> hexDigit c; z \<leftarrow> hexDigit d;
          Some (word_of_int (((w * 16 + x) * 16 + y) * 16 + z)) }"

text \<open>The character after a backslash, other than \<^verbatim>\<open>u\<close>.\<close>

definition unescape :: "16 word \<Rightarrow> 16 word option" where
  "unescape e =
     (if e = 0x22 then Some 0x22 else if e = 0x5C then Some 0x5C
      else if e = 0x2F then Some 0x2F else if e = 0x62 then Some 0x08
      else if e = 0x66 then Some 0x0C else if e = 0x6E then Some 0x0A
      else if e = 0x72 then Some 0x0D else if e = 0x74 then Some 0x09 else None)"

definition consFst :: "'a \<Rightarrow> ('a list \<times> 'b) option \<Rightarrow> ('a list \<times> 'b) option" where
  "consFst x r = map_option (\<lambda>(xs, z). (x # xs, z)) r"

text \<open>
  The characters of a string literal after its opening quote, up to the closing quote:
  the string they stand for and the text that follows.
\<close>

fun parseChars :: "jsstring \<Rightarrow> (jsstring \<times> jsstring) option" where
  "parseChars [] = None"
| "parseChars (c # r) =
     (if c = 0x22 then Some ([], r)
      else if c = 0x5C then
        (case r of
           [] \<Rightarrow> None
         | e # r1 \<Rightarrow>
             if e = 0x75 then
               (case r1 of
                  h1 # h2 # h3 # h4 # r2 \<Rightarrow>
                    (case hex4 h1 h2 h3 h4 of
                       None \<Rightarrow> None
                     | Some u \<Rightarrow> consFst u (parseChars r2))
                | _ \<Rightarrow> None)
             else
               (case unescape e of
                  None \<Rightarrow> None
                | Some u \<Rightarrow> consFst u (parseChars r1)))
      else if c < 0x20 then None
      else consFst c (parseChars r))"

text \<open>
  A number literal: an optional minus, an integer part without a leading zero, an
  optional fraction and an optional exponent.
\<close>

definition parseNumber :: "jsstring \<Rightarrow> (json \<times> jsstring) option" where
  "parseNumber s =
     (let neg = startsWith 0x2D s;
          s1 = (if neg then tl s else s);
          ip = takeWhile isDigit s1;
          s2 = dropWhile isDigit s1;
          hasFrac = startsWith 0x2E s2;
          fp = (if hasFrac then takeWhile isDigit (tl s2) else []);
          s3 = (if hasFrac then dropWhile isDigit (tl s2) else s2);
          hasExp = (startsWith 0x65 s3 \<or> startsWith 0x45 s3);
          s4 = (if hasExp then tl s3 else s3);
          eneg = startsWith 0x2D s4;
          s5 = (if hasExp \<and> (eneg \<or> startsWith 0x2B s4) then tl s4 else s4);
          ep = (if hasExp then takeWhile isDigit s5 else []);
          s6 = (if hasExp then dropWhile isDigit s5 else s5);
          m = (if neg then -1 else 1) * digitsVal (ip @ fp);
          e = (if eneg then -1 else 1) * digitsVal ep - int (length fp)
      in if ip = [] \<or> (hd ip = 0x30 \<and> 1 < length ip) \<or> (hasFrac \<and> fp = [])
            \<or> (hasExp \<and> ep = [])
         then None else Some (JNumber m e, s6))"

definition expectWord :: "string \<Rightarrow> json \<Rightarrow> jsstring \<Rightarrow> (json \<times> jsstring) option" where
  "expectWord w v s =
     (if take (length w) s = ascii w then Some (v, drop (length w) s) else None)"

text \<open>
  A value, the elements of an array after its opening bracket, and the members of an
  object after its opening brace. The first argument bounds the number of calls; a text
  of \<open>n\<close> code units needs no more than \<open>n\<close>, as every call reads at least one.
\<close>

fun parseValue :: "nat \<Rightarrow> jsstring \<Rightarrow> (json \<times> jsstring) option"
  and parseElements :: "nat \<Rightarrow> jsstring \<Rightarrow> (json list \<times> jsstring) option"
  and parseMembers :: "nat \<Rightarrow> jsstring \<Rightarrow> ((jsstring \<times> json) list \<times> jsstring) option"
where
  "parseValue 0 s = None"
| "parseValue (Suc n) s =
     (case s of
        [] \<Rightarrow> None
      | c # r \<Rightarrow>
          if c = 0x5B then
            (let r' = skipWs r
             in if startsWith 0x5D r' then Some (JArray [], tl r')
                else map_option (\<lambda>(vs, z). (JArray vs, z)) (parseElements n r'))
          else if c = 0x7B then
            (let r' = skipWs r
             in if startsWith 0x7D r' then Some (JObject [], tl r')
                else map_option (\<lambda>(kvs, z). (JObject kvs, z)) (parseMembers n r'))
          else if c = 0x22 then map_option (\<lambda>(str, z). (JString str, z)) (parseChars r)
          else if c = 0x74 then expectWord ''true'' (JBool True) s
          else if c = 0x66 then expectWord ''false'' (JBool False) s
          else if c = 0x6E then expectWord ''null'' JNull s
          else parseNumber s)"
| "parseElements 0 s = None"
| "parseElements (Suc n) s =
     (case parseValue n s of
        None \<Rightarrow> None
      | Some (v, r) \<Rightarrow>
          (let r' = skipWs r
           in if startsWith 0x2C r' then consFst v (parseElements n (skipWs (tl r')))
              else if startsWith 0x5D r' then Some ([v], tl r')
              else None))"
| "parseMembers 0 s = None"
| "parseMembers (Suc n) s =
     (case s of
        [] \<Rightarrow> None
      | q # s' \<Rightarrow>
          if q \<noteq> 0x22 then None
          else
            (case parseChars s' of
               None \<Rightarrow> None
             | Some (k, r) \<Rightarrow>
                 (let r1 = skipWs r
                  in if startsWith 0x3A r1 then
                       (case parseValue n (skipWs (tl r1)) of
                          None \<Rightarrow> None
                        | Some (v, r2) \<Rightarrow>
                            (let r3 = skipWs r2
                             in if startsWith 0x2C r3 then
                                  consFst (k, v) (parseMembers n (skipWs (tl r3)))
                                else if startsWith 0x7D r3 then Some ([(k, v)], tl r3)
                                else None))
                     else None)))"

text \<open>\<^verbatim>\<open>JSON.parse\<close>: one value with white space around it; \<open>None\<close> is a \<^verbatim>\<open>SyntaxError\<close>.\<close>

definition JSON_parse :: "jsstring \<Rightarrow> json option" where
  "JSON_parse s =
     (case parseValue (Suc (length s)) (skipWs s) of
        None \<Rightarrow> None
      | Some (v, r) \<Rightarrow> if skipWs r = [] then Some v else None)"

text \<open>
  \<^verbatim>\<open>JSON.stringify\<close> of a string: quotes, backslashes and control characters are
  escaped, a surrogate that is not part of a pair is written as \<^verbatim>\<open>\uXXXX\<close>, all other
  code units stand for themselves.
\<close>

definition hexChar :: "int \<Rightarrow> 16 word" where
  "hexChar k = (if k < 10 then word_of_int (48 + k) else word_of_int (87 + k))"

definition unicodeEscape :: "16 word \<Rightarrow> jsstring" where
  "unicodeEscape c =
     [0x5C, 0x75, hexChar (uint c div 4096), hexChar (uint c div 256 mod 16),
      hexChar (uint c div 16 mod 16), hexChar (uint c mod 16)]"

definition isHighSurrogate :: "16 word \<Rightarrow> bool" where
  "isHighSurrogate c = (0xD800 \<le> c \<and> c \<le> 0xDBFF)"

definition isLowSurrogate :: "16 word \<Rightarrow> bool" where
  "isLowSurrogate c = (0xDC00 \<le> c \<and> c \<le> 0xDFFF)"

definition escapeUnit :: "16 word \<Rightarrow> jsstring" where
  "escapeUnit c =
     (if c = 0x08 then [0x5C, 0x62] else if c = 0x09 then [0x5C, 0x74]
      else if c = 0x0A then [0x5C, 0x6E] else if c = 0x0C then [0x5C, 0x66]
      else if c = 0x0D then [0x5C, 0x72] else if c = 0x22 then [0x5C, 0x22]
      else if c = 0x5C then [0x5C, 0x5C]
      else if c < 0x20 \<or> isHighSurrogate c \<or> isLowSurrogate c then unicodeEscape c
      else [c])"

fun escapeChars :: "jsstring \<Rightarrow> jsstring" where
  "escapeChars [] = []"
| "escapeChars [c] = escapeUnit c"
| "escapeChars (c # d # r) =
     (if isHighSurrogate c \<and> isLowSurrogate d then c # d # escapeChars r
      else escapeUnit c @ escapeChars (d # r))"

definition quoteJSON :: "jsstring \<Rightarrow> jsstring" where
  "quoteJSON s = 0x22 # escapeChars s @ [0x22]"

text \<open>The two strings of \<^verbatim>\<open>TransactionType\<close>, in code units.\<close>

definition typeString :: "TransactionType \<Rightarrow> jsstring" where
  "typeString ty =
     (case ty of
        ChiTieu \<Rightarrow> [0x43, 0x68, 0x69, 0x20, 0x74, 0x69, 0xEA, 0x75]
      | ThuNhap \<Rightarrow> [0x54, 0x68, 0x75, 0x20, 0x6E, 0x68, 0x1EAD, 0x70])"

text \<open>
  \<^verbatim>\<open>JSON.stringify\<close> of a number: a finite number is written as \<^verbatim>\<open>String\<close> writes it,
  \<^verbatim>\<open>NaN\<close> and the infinities are written as \<^verbatim>\<open>null\<close>.
\<close>

definition numberToJSON :: "jsnum \<Rightarrow> jsstring" where
  "numberToJSON a = (case a of Num n \<Rightarrow> numberToString n | _ \<Rightarrow> ascii ''null'')"

text \<open>
  \<^verbatim>\<open>JSON.stringify(transactions)\<close>: an array of objects, every object with its five
  properties in the order in which \<^verbatim>\<open>handleAddTransaction\<close> creates them, without white
  space.
\<close>

definition jsonKey :: "string \<Rightarrow> jsstring" where
  "jsonKey k = 0x22 # ascii k @ [0x22, 0x3A]"

definition transactionToJSON :: "Transaction \<Rightarrow> jsstring" where
  "transactionToJSON t =
     0x7B # jsonKey ''id'' @ quoteJSON (id t)
     @ 0x2C # jsonKey ''name'' @ quoteJSON (name t)
     @ 0x2C # jsonKey ''amount'' @ numberToJSON (amount t)
     @ 0x2C # jsonKey ''type'' @ quoteJSON (typeString (type t))
     @ 0x2C # jsonKey ''createdAt'' @ quoteJSON (createdAt t) @ [0x7D]"

fun joinComma :: "jsstring list \<Rightarrow> jsstring" where
  "joinComma [] = []"
| "joinComma [x] = x"
| "joinComma (x # y # r) = x @ 0x2C # joinComma (y # r)"

definition JSON_stringify :: "Transaction list \<Rightarrow> jsstring" where
  "JSON_stringify ts = 0x5B # joinComma (map transactionToJSON ts) @ [0x5D]"

subsection \<open>The stored collection\<close>

text \<open>\<^verbatim>\<open>localStorage\<close>: a map from keys to strings.\<close>

type_synonym storage = "jsstring \<rightharpoonup> jsstring"

definition STORAGE_KEY :: jsstring where
  "STORAGE_KEY = ascii ''expense-tracker-transactions''"

text \<open>
  The persisting effect, \<^verbatim>\<open>localStorage.setItem(STORAGE_KEY, JSON.stringify(transactions))\<close>.
  A write the platform refuses throws, the handler catches it, and the storage stays as
  it was; \<open>ok\<close> says whether the platform takes the write.
\<close>

definition persist :: "bool \<Rightarrow> state \<Rightarrow> storage \<Rightarrow> storage" where
  "persist ok s ls = (if ok then ls(STORAGE_KEY \<mapsto> JSON_stringify (transactions s)) else ls)"

text \<open>
  Reading a parsed element as a \<^verbatim>\<open>Transaction\<close>. The cast in the source checks nothing;
  an element is read here when it is an object whose five properties have the declared
  types (the last member of a name counts, as in \<^verbatim>\<open>JSON.parse\<close>). The number that a
  literal stands for is the double nearest to its value, so a literal of 309 digits is
  infinity; a literal whose value is not a whole number is not read.
\<close>

definition getProp :: "string \<Rightarrow> (jsstring \<times> json) list \<Rightarrow> json option" where
  "getProp k kvs = map_of (rev kvs) (ascii k)"

definition numberToDouble :: "int \<Rightarrow> int \<Rightarrow> jsnum option" where
  "numberToDouble m e =
     (if 0 \<le> e then Some (toDouble (m * 10 ^ nat e))
      else if m mod 10 ^ nat (- e) = 0 then Some (toDouble (m div 10 ^ nat (- e)))
      else None)"

definition typeOfString :: "jsstring \<Rightarrow> TransactionType option" where
  "typeOfString str =
     (if str = typeString ChiTieu then Some ChiTieu
      else if str = typeString ThuNhap then Some ThuNhap else None)"

definition asTransaction :: "json \<Rightarrow> Transaction option" where
  "asTransaction v =
     (case v of
        JObject kvs \<Rightarrow>
          (case (getProp ''id'' kvs, getProp ''name'' kvs, getProp ''amount'' kvs,
                 getProp ''type'' kvs, getProp ''createdAt'' kvs) of
             (Some (JString i), Some (JString n), Some (JNumber m e), Some (JString ty),
              Some (JString c)) \<Rightarrow>
               (case (numberToDouble m e, typeOfString ty) of
                  (Some a, Some k) \<Rightarrow>
                    Some \<lparr> id = i, name = n, amount = a, type = k, createdAt = c \<rparr>
                | _ \<Rightarrow> None)
           | _ \<Rightarrow> None)
      | _ \<Rightarrow> None)"

fun asTransactions :: "json list \<Rightarrow> Transaction list option" where
  "asTransactions [] = Some []"
| "asTransactions (v # vs) =
     (case asTransaction v of
        None \<Rightarrow> None
      | Some t \<Rightarrow> map_option ((#) t) (asTransactions vs))"

text \<open>
  The hydrating effect. A missing or empty item, a text that does not parse (the
  \<^verbatim>\<open>SyntaxError\<close> is caught) and a value that is not an array leave the state as it is.
  An array is installed as the collection without any check. \<open>None\<close> stands for an array
  with an element that is not of the declared type, such as a record with \<^verbatim>\<open>null\<close> for
  its amount: the state then holds a value this model has no record for.
\<close>

definition hydrate :: "storage \<Rightarrow> state \<Rightarrow> state option" where
  "hydrate ls s =
     (case ls STORAGE_KEY of
        None \<Rightarrow> Some s
      | Some raw \<Rightarrow>
          if raw = [] then Some s
          else
            (case JSON_parse raw of
               None \<Rightarrow> Some s
             | Some (JArray vs) \<Rightarrow>
                 map_option (\<lambda>ts. s\<lparr>transactions := ts\<rparr>) (asTransactions vs)
             | Some _ \<Rightarrow> Some s))"

text \<open>
  The values that the text of a number, of an amount and of one record parse to. A number
  written out parses to its digits and the exponent 0, one in exponent form to the digits
  \<open>s\<close> and the exponent \<open>e\<close>.
\<close>

definition numberLiteral :: "int \<Rightarrow> json" where
  "numberLiteral x =
     (if x = 0 then JNumber 0 0
      else
        (let (s, e) = shortest \<bar>x\<bar>;
             sg = (if x < 0 then - 1 else 1)
         in if length (natToString (nat s)) + e \<le> 21 then JNumber (sg * (s * 10 ^ e)) 0
            else JNumber (sg * s) (int e)))"

definition amountValue :: "jsnum \<Rightarrow> json" where
  "amountValue a = (case a of Num n \<Rightarrow> numberLiteral n | _ \<Rightarrow> JNull)"

definition transactionValue :: "Transaction \<Rightarrow> json" where
  "transactionValue t =
     JObject [(ascii ''id'', JString (id t)), (ascii ''name'', JString (name t)),
              (ascii ''amount'', amountValue (amount t)),
              (ascii ''type'', JString (typeString (type t))),
              (ascii ''createdAt'', JString (createdAt t))]"

subsection \<open>Reading the filter specification\<close>

text \<open>
  The year and the month of a month filter, as the specification reads them: both parts
  of the string must be present and parse to positive integers; \<open>None\<close> when either is
  absent or invalid.
\<close>

definition monthSpec :: "jsstring \<Rightarrow> (int \<times> int) option" where
  "monthSpec fm =
     (if fm = [] then None
      else case map parseInt (splitOn 0x2D fm) of
        Num y # Num m # _ \<Rightarrow> if 0 < y \<and> 0 < m then Some (y, m) else None
      | _ \<Rightarrow> None)"

text \<open>A record whose \<^verbatim>\<open>createdAt\<close> parses to a time value.\<close>

definition hasTimestamp :: "int \<Rightarrow> Transaction \<Rightarrow> bool" where
  "hasTimestamp tza t = (Date_parse tza (createdAt t) \<noteq> NaN)"

text \<open>
  Calendar days and months as windows of time values, in local time: a day runs from
  00:00:00.000 to 23:59:59.999, a month from the first instant of its first day to the
  millisecond before the next month starts. Months are numbered from 1.
\<close>

definition dayFirstInstant :: "int \<Rightarrow> int \<Rightarrow> int \<Rightarrow> int \<Rightarrow> int" where
  "dayFirstInstant tza y m d = MakeDay y (m - 1) d * msPerDay - tza"

definition dayLastInstant :: "int \<Rightarrow> int \<Rightarrow> int \<Rightarrow> int \<Rightarrow> int" where
  "dayLastInstant tza y m d = dayFirstInstant tza y m d + msPerDay - 1"

definition monthFirstInstant :: "int \<Rightarrow> int \<Rightarrow> int \<Rightarrow> int" where
  "monthFirstInstant tza y m = dayFirstInstant tza y m 1"

definition monthLastInstant :: "int \<Rightarrow> int \<Rightarrow> int \<Rightarrow> int" where
  "monthLastInstant tza y m = monthFirstInstant tza y (m + 1) - 1"

text \<open>The calendar day that a date-only string names.\<close>

definition dateOnly :: "jsstring \<Rightarrow> (int \<times> int \<times> int) option" where
  "dateOnly fs =
     (case parseDatePart fs of Some (ymd, r) \<Rightarrow> if r = [] then Some ymd else None | None \<Rightarrow> None)"

text \<open>A record whose \<^verbatim>\<open>createdAt\<close> instant lies in a window, both ends included.\<close>

definition createdWithin :: "int \<Rightarrow> int \<Rightarrow> int \<Rightarrow> Transaction \<Rightarrow> bool" where
  "createdWithin tza lo hi t =
     (case Date_parse tza (createdAt t) of Num ms \<Rightarrow> lo \<le> ms \<and> ms \<le> hi | _ \<Rightarrow> False)"

text \<open>
  A record whose \<^verbatim>\<open>createdAt\<close> instant lies within optional bounds; an absent bound
  does not restrict.
\<close>

definition createdBetween :: "int \<Rightarrow> int option \<Rightarrow> int option \<Rightarrow> Transaction \<Rightarrow> bool" where
  "createdBetween tza lo hi t =
     (case Date_parse tza (createdAt t) of
        Num ms \<Rightarrow>
          (case lo of None \<Rightarrow> True | Some a \<Rightarrow> a \<le> ms)
          \<and> (case hi of None \<Rightarrow> True | Some b \<Rightarrow> ms \<le> b)
      | _ \<Rightarrow> False)"

subsection \<open>The invariants of the data model\<close>

text \<open>
  What the specification demands of a stored collection: every record has a positive
  amount and a name that is not empty, and no two records share an id.
\<close>

definition validTransaction :: "Transaction \<Rightarrow> bool" where
  "validTransaction t = (js_gt (amount t) (Num 0) \<and> name t \<noteq> [])"

definition storeInvariant :: "Transaction list \<Rightarrow> bool" where
  "storeInvariant ts = (list_all validTransaction ts \<and> distinct (map id ts))"

text \<open>A record whose amount is a finite number, that is, a whole number that is a double.\<close>

definition finiteAmount :: "Transaction \<Rightarrow> bool" where
  "finiteAmount t = (case amount t of Num n \<Rightarrow> isDouble n | _ \<Rightarrow> False)"

text \<open>
  A record whose amount is a number of the platform: a whole number that is a double,
  \<^verbatim>\<open>NaN\<close> or an infinity.
\<close>

definition numberAmount :: "Transaction \<Rightarrow> bool" where
  "numberAmount t = (case amount t of Num n \<Rightarrow> isDouble n | _ \<Rightarrow> True)"

subsection \<open>Exact sums\<close>

text \<open>
  The whole number that an amount is, and the collections whose sums no rounding touches:
  every amount is a whole number that is not negative, and all of them together come to
  \<open>2^53\<close> at most.
\<close>

definition amountOf :: "Transaction \<Rightarrow> int" where
  "amountOf t = (case amount t of Num n \<Rightarrow> n | _ \<Rightarrow> 0)"

definition wholeAmount :: "Transaction \<Rightarrow> bool" where
  "wholeAmount t = (case amount t of Num n \<Rightarrow> 0 \<le> n | _ \<Rightarrow> False)"

definition exactAmounts :: "Transaction list \<Rightarrow> bool" where
  "exactAmounts ts = (list_all wholeAmount ts \<and> sum_list (map amountOf ts) \<le> 2 ^ 53)"

section \<open>Properties\<close>

subsection \<open>Doubles\<close>

lemma bitLength_le: "a < 2 ^ k \<Longrightarrow> bitLength a \<le> k"
proof (induction k arbitrary: a)
  case 0
  then show ?case by (subst bitLength.simps) simp
next
  case (Suc k)
  show ?case
  proof (cases "a \<le> 0")
    case True
    then show ?thesis by (subst bitLength.simps) simp
  next
    case False
    from Suc.prems have "a div 2 < 2 ^ k" by simp
    then have "bitLength (a div 2) \<le> k" by (rule Suc.IH)
    with False show ?thesis by (subst bitLength.simps) simp
  qed
qed

lemma roundToEven_zero: "roundToEven a 0 = a"
  by (simp add: roundToEven_def)

lemma toDouble_exact:
  assumes "\<bar>n\<bar> < 2 ^ 53"
  shows "toDouble n = Num n"
proof -
  from assms have "bitLength \<bar>n\<bar> \<le> 53" by (rule bitLength_le)
  then have e: "bitLength \<bar>n\<bar> - 53 = 0" by simp
  have big: "\<not> (2::int) ^ 1024 \<le> \<bar>n\<bar>"
  proof -
    have "(2::int) ^ 53 \<le> 2 ^ 1024" by (rule power_increasing) simp_all
    with assms show ?thesis by linarith
  qed
  show ?thesis
    unfolding toDouble_def Let_def e roundToEven_zero using big by simp
qed

lemma toDouble_zero: "toDouble 0 = Num 0"
  by (rule toDouble_exact) simp

lemma toDouble_neg: "toDouble (- n) = js_neg (toDouble n)"
proof (cases "n = 0")
  case True
  then show ?thesis by (simp add: toDouble_zero)
next
  case False
  then show ?thesis by (simp add: toDouble_def Let_def)
qed

lemma isDouble_neg: "isDouble (- n) = isDouble n"
  unfolding isDouble_def toDouble_neg by (cases "toDouble n") auto

lemma bitLength_ge: "0 < a \<Longrightarrow> 2 ^ (bitLength a - 1) \<le> a"
proof (induction a rule: bitLength.induct)
  case (1 a)
  show ?case
  proof (cases "a div 2 \<le> 0")
    case True
    with "1.prems" have "a = 1" by linarith
    then show ?thesis by (simp add: bitLength.simps [of 1] bitLength.simps [of 0])
  next
    case False
    then have p: "0 < a div 2" by simp
    with 1 have ih: "2 ^ (bitLength (a div 2) - 1) \<le> a div 2" by simp
    have "0 < bitLength (a div 2)" using p by (subst bitLength.simps) simp
    then have "bitLength a - 1 = Suc (bitLength (a div 2) - 1)"
      using "1.prems" by (subst bitLength.simps) simp
    then have "(2::int) ^ (bitLength a - 1) = 2 * 2 ^ (bitLength (a div 2) - 1)" by simp
    also have "\<dots> \<le> 2 * (a div 2)" using ih by simp
    also have "\<dots> \<le> a" by simp
    finally show ?thesis .
  qed
qed

lemma roundToEven_pos:
  assumes "2 ^ e \<le> a"
  shows "0 < roundToEven a e"
proof -
  have "1 \<le> a div 2 ^ e"
    using assms by (metis div_by_1 div_self mult.commute pos_imp_zdiv_pos_iff zero_less_numeral zero_less_power zdiv_mono1 power_not_zero zero_neq_numeral)
  then show ?thesis by (simp add: roundToEven_def Let_def)
qed

lemma toDouble_pos:
  assumes "0 < n"
  shows "toDouble n = PosInfinity \<or> (\<exists>v. toDouble n = Num v \<and> 0 < v)"
proof -
  from assms have a: "\<bar>n\<bar> = n" by simp
  have "(2::int) ^ (bitLength n - 53) \<le> 2 ^ (bitLength n - 1)"
    by (rule power_increasing) simp_all
  also have "\<dots> \<le> n" by (rule bitLength_ge [OF assms])
  finally have "0 < roundToEven n (bitLength n - 53)" by (rule roundToEven_pos)
  with assms show ?thesis by (simp add: toDouble_def Let_def a)
qed

lemma toDouble_two_53: "toDouble 9007199254740992 = Num 9007199254740992"
  by code_simp

lemma toDouble_safe:
  assumes "\<bar>n\<bar> \<le> 2 ^ 53"
  shows "toDouble n = Num n"
proof (cases "\<bar>n\<bar> < 2 ^ 53")
  case True
  then show ?thesis by (rule toDouble_exact)
next
  case False
  with assms have "n = 9007199254740992 \<or> n = - 9007199254740992" by simp linarith
  then show ?thesis
  proof
    assume "n = 9007199254740992"
    then show ?thesis by (simp only: toDouble_two_53)
  next
    assume n: "n = - 9007199254740992"
    show ?thesis unfolding n toDouble_neg toDouble_two_53 by simp
  qed
qed

lemma bitLength_lt: "0 \<le> a \<Longrightarrow> a < 2 ^ bitLength a"
proof (induction a rule: bitLength.induct)
  case (1 a)
  show ?case
  proof (cases "a \<le> 0")
    case True
    with "1.prems" have "a = 0" by simp
    then show ?thesis by simp
  next
    case False
    then have "a div 2 < 2 ^ bitLength (a div 2)" using 1 by simp
    then have "a < 2 * 2 ^ bitLength (a div 2)" by linarith
    moreover have "bitLength a = Suc (bitLength (a div 2))"
      using False by (subst bitLength.simps) simp
    ultimately show ?thesis by simp
  qed
qed

lemma bitLength_unique:
  assumes "2 ^ k \<le> a" and "a < 2 ^ Suc k"
  shows "bitLength a = Suc k"
proof -
  have one: "(1::int) < 2" by simp
  have "(0::int) < 2 ^ k" by simp
  with assms(1) have p: "0 < a" by linarith
  from bitLength_ge [OF p] assms(2) have "(2::int) ^ (bitLength a - 1) < 2 ^ Suc k" by linarith
  from power_less_imp_less_exp [OF one this] have u: "bitLength a - 1 < Suc k" .
  from bitLength_lt [of a] p assms(1) have "(2::int) ^ k < 2 ^ bitLength a" by linarith
  from power_less_imp_less_exp [OF one this] have "k < bitLength a" .
  with u show ?thesis by linarith
qed

lemma roundToEven_multiple: "roundToEven (q * 2 ^ e) e = q * 2 ^ e"
  by (simp add: roundToEven_def Let_def)

lemma roundToEven_idem_gen:
  assumes a: "0 \<le> a" and w_def: "w = roundToEven a (bitLength a - Suc p)"
  shows "roundToEven w (bitLength w - Suc p) = w"
proof (cases "bitLength a \<le> Suc p")
  case True
  then have "w = a" by (simp add: w_def roundToEven_zero)
  with True show ?thesis by (simp add: roundToEven_zero)
next
  case False
  define e where "e = bitLength a - Suc p"
  from False have bl: "bitLength a = Suc p + e" and e: "0 < e" by (simp_all add: e_def)
  have pa: "0 < a" using False a by (cases "a = 0") (simp_all add: bitLength.simps [of 0])
  have b: "(0::int) < 2 ^ e" by simp
  from bitLength_ge [OF pa] have lo: "2 ^ p * 2 ^ e \<le> a" by (simp add: bl power_add)
  from bitLength_lt [OF a] have hi: "a < 2 ^ Suc p * 2 ^ e" by (simp only: bl power_add)
  define q where "q = a div 2 ^ e"
  define r where "r = a mod 2 ^ e"
  have dec: "a = q * 2 ^ e + r" unfolding q_def r_def by (rule div_mult_mod_eq [symmetric])
  have r: "0 \<le> r" "r < 2 ^ e" by (simp_all add: r_def)
  have "2 ^ p * 2 ^ e < (q + 1) * 2 ^ e" using lo dec r by (simp add: algebra_simps)
  then have "2 ^ p < q + 1" using b by (simp only: mult_less_cancel_right_pos)
  then have qlo: "2 ^ p \<le> q" by simp
  have "q * 2 ^ e < 2 ^ Suc p * 2 ^ e" using hi dec r by linarith
  then have qhi: "q < 2 ^ Suc p" using b by (simp only: mult_less_cancel_right_pos)
  define q' where "q' = (if 2 ^ e < 2 * r \<or> (2 * r = 2 ^ e \<and> odd q) then q + 1 else q)"
  have w: "w = q' * 2 ^ e"
    by (simp add: w_def roundToEven_def Let_def q'_def q_def r_def e_def)
  have q': "2 ^ p \<le> q'" "q' \<le> 2 ^ Suc p" using qlo qhi by (simp_all add: q'_def)
  show ?thesis
  proof (cases "q' = 2 ^ Suc p")
    case True
    then have w2: "w = 2 ^ p * 2 ^ Suc e" by (simp add: w)
    have "w = 2 ^ Suc (p + e)" by (simp add: w2 power_add)
    then have "bitLength w = Suc (Suc (p + e))" by (intro bitLength_unique) simp_all
    then have "bitLength w - Suc p = Suc e" by simp
    then show ?thesis unfolding w2 by (simp only: roundToEven_multiple)
  next
    case False
    with q' have lt: "q' < 2 ^ Suc p" by simp
    have "2 ^ p * 2 ^ e \<le> q' * 2 ^ e" using q'(1) by (rule mult_right_mono) simp
    then have l: "2 ^ (p + e) \<le> w" by (simp only: w power_add)
    have "q' * 2 ^ e < 2 ^ Suc p * 2 ^ e" using lt b by (simp only: mult_less_cancel_right_pos)
    then have "w < 2 ^ (Suc p + e)" by (simp only: w power_add)
    then have u: "w < 2 ^ Suc (p + e)" by simp
    from l u have "bitLength w = Suc (p + e)" by (rule bitLength_unique)
    then have "bitLength w - Suc p = e" by simp
    then show ?thesis unfolding w by (simp only: roundToEven_multiple)
  qed
qed

lemma roundToEven_nonneg: "0 \<le> a \<Longrightarrow> 0 \<le> roundToEven a e"
  by (simp add: roundToEven_def Let_def pos_imp_zdiv_nonneg_iff)

text \<open>What \<open>toDouble\<close> gives is a double.\<close>

lemma toDouble_isDouble:
  assumes "toDouble n = Num v"
  shows "isDouble v"
proof -
  define w where "w = roundToEven \<bar>n\<bar> (bitLength \<bar>n\<bar> - 53)"
  have s: "Suc 52 = 53" by simp
  have i: "roundToEven w (bitLength w - 53) = w"
    using roundToEven_idem_gen [of "\<bar>n\<bar>" w 52] by (simp only: s w_def abs_ge_zero)
  have p: "0 \<le> w" unfolding w_def by (rule roundToEven_nonneg) simp
  from assms have small: "\<not> 2 ^ 1024 \<le> w" and v: "v = (if n < 0 then - w else w)"
    by (auto simp: toDouble_def Let_def w_def split: if_splits)
  have "toDouble w = Num w"
    using small p i by (simp add: toDouble_def Let_def)
  then have "isDouble w" by (simp add: isDouble_def)
  then show ?thesis using v isDouble_neg [of w] by (cases "n < 0") simp_all
qed

lemma js_gt_toDouble: "0 < n \<Longrightarrow> js_gt (toDouble n) (Num 0)"
  using toDouble_pos [of n] by (auto simp: js_gt_def)

subsection \<open>Totals\<close>

lemma whole_amount: "wholeAmount t \<Longrightarrow> amount t = Num (amountOf t) \<and> 0 \<le> amountOf t"
  by (cases "amount t") (simp_all add: wholeAmount_def amountOf_def)

lemma sum_amounts_nonneg: "list_all wholeAmount ts \<Longrightarrow> 0 \<le> sum_list (map amountOf ts)"
  by (induction ts) (auto dest: whole_amount)

lemma sum_amounts_filter:
  "list_all wholeAmount ts \<Longrightarrow>
   sum_list (map amountOf (filter P ts)) \<le> sum_list (map amountOf ts)"
  by (induction ts) (auto dest: whole_amount)

lemma foldl_js_add_exact:
  assumes "list_all wholeAmount ts" and "0 \<le> a" and "a + sum_list (map amountOf ts) \<le> 2 ^ 53"
  shows "foldl (\<lambda>sum t. js_add sum (amount t)) (Num a) ts = Num (a + sum_list (map amountOf ts))"
  using assms
proof (induction ts arbitrary: a)
  case Nil
  show ?case by simp
next
  case (Cons t ts)
  from Cons.prems(1) have w: "wholeAmount t" and ws: "list_all wholeAmount ts" by simp_all
  from whole_amount [OF w] have n: "amount t = Num (amountOf t)" and p: "0 \<le> amountOf t"
    by simp_all
  from sum_amounts_nonneg [OF ws] have r: "0 \<le> sum_list (map amountOf ts)" .
  from Cons.prems(2,3) p r have "\<bar>a + amountOf t\<bar> \<le> 2 ^ 53" by simp
  then have "toDouble (a + amountOf t) = Num (a + amountOf t)" by (rule toDouble_safe)
  then have st: "js_add (Num a) (amount t) = Num (a + amountOf t)" by (simp add: n)
  have "foldl (\<lambda>sum t. js_add sum (amount t)) (Num (a + amountOf t)) ts
        = Num (a + amountOf t + sum_list (map amountOf ts))"
    using ws Cons.prems(2,3) p by (intro Cons.IH) simp_all
  then show ?case by (simp add: st add.assoc)
qed

lemma total_exact:
  assumes "exactAmounts ts"
  shows "foldl (\<lambda>sum t. js_add sum (amount t)) (Num 0) (filter P ts)
         = Num (sum_list (map amountOf (filter P ts)))"
proof -
  from assms have w: "list_all wholeAmount ts" and b: "sum_list (map amountOf ts) \<le> 2 ^ 53"
    by (simp_all add: exactAmounts_def)
  from w have wf: "list_all wholeAmount (filter P ts)" by (simp add: list_all_iff)
  from sum_amounts_filter [OF w, of P] b
  have "0 + sum_list (map amountOf (filter P ts)) \<le> 2 ^ 53" by simp
  from foldl_js_add_exact [OF wf _ this] show ?thesis by simp
qed

text \<open>
  C5, as the code has it. The balance is the income total minus the expense total, and the
  empty list gives three zeros. The totals are sums of doubles, taken from the left. For
  amounts that are whole numbers, none negative, which together come to \<open>2^53\<close> at
  most, the expense total is the sum of the amounts of the expense records, the income
  total the sum of the amounts of the income records, and the balance their difference.
\<close>

theorem aggregate_sums:
  "balance ts = js_sub (totalIncome ts) (totalExpense ts)
   \<and> totalExpense [] = Num 0 \<and> totalIncome [] = Num 0 \<and> balance [] = Num 0
   \<and> (exactAmounts ts \<longrightarrow>
        totalExpense ts = Num (sum_list (map amountOf (filter (\<lambda>t. type t = ChiTieu) ts)))
        \<and> totalIncome ts = Num (sum_list (map amountOf (filter (\<lambda>t. type t = ThuNhap) ts)))
        \<and> balance ts = Num (sum_list (map amountOf (filter (\<lambda>t. type t = ThuNhap) ts))
                            - sum_list (map amountOf (filter (\<lambda>t. type t = ChiTieu) ts))))"
proof -
  have z: "totalExpense [] = Num 0" "totalIncome [] = Num 0"
    by (simp_all add: totalExpense_def totalIncome_def)
  then have zb: "balance [] = Num 0" by (simp add: balance_def js_sub_def toDouble_zero)
  have ex: "totalExpense ts = Num (sum_list (map amountOf (filter (\<lambda>t. type t = ChiTieu) ts)))
        \<and> totalIncome ts = Num (sum_list (map amountOf (filter (\<lambda>t. type t = ThuNhap) ts)))
        \<and> balance ts = Num (sum_list (map amountOf (filter (\<lambda>t. type t = ThuNhap) ts))
                            - sum_list (map amountOf (filter (\<lambda>t. type t = ChiTieu) ts)))"
    if e: "exactAmounts ts"
  proof -
    define x where "x = sum_list (map amountOf (filter (\<lambda>t. type t = ChiTieu) ts))"
    define i where "i = sum_list (map amountOf (filter (\<lambda>t. type t = ThuNhap) ts))"
    from e have w: "list_all wholeAmount ts" and b: "sum_list (map amountOf ts) \<le> 2 ^ 53"
      by (simp_all add: exactAmounts_def)
    have wf: "list_all wholeAmount (filter P ts)" for P using w by (simp add: list_all_iff)
    have x: "0 \<le> x" "x \<le> 2 ^ 53"
      using sum_amounts_nonneg [OF wf, of "\<lambda>t. type t = ChiTieu"]
        sum_amounts_filter [OF w, of "\<lambda>t. type t = ChiTieu"] b
      by (simp_all add: x_def)
    have i: "0 \<le> i" "i \<le> 2 ^ 53"
      using sum_amounts_nonneg [OF wf, of "\<lambda>t. type t = ThuNhap"]
        sum_amounts_filter [OF w, of "\<lambda>t. type t = ThuNhap"] b
      by (simp_all add: i_def)
    have tx: "totalExpense ts = Num x" unfolding totalExpense_def x_def by (rule total_exact [OF e])
    have ti: "totalIncome ts = Num i" unfolding totalIncome_def i_def by (rule total_exact [OF e])
    from x i have "\<bar>i + - x\<bar> \<le> 2 ^ 53" by simp
    then have "toDouble (i + - x) = Num (i + - x)" by (rule toDouble_safe)
    then have "balance ts = Num (i - x)" by (simp add: balance_def js_sub_def tx ti)
    with tx ti show ?thesis by (simp add: x_def i_def)
  qed
  have d: "balance ts = js_sub (totalIncome ts) (totalExpense ts)" by (simp add: balance_def)
  from d z zb ex show ?thesis by blast
qed

theorem aggregate_sums_witness:
  "exactAmounts
     [\<lparr>id = ascii ''2-b'', name = ascii ''Salary'', amount = Num 2000000, type = ThuNhap,
       createdAt = ascii ''2026-03-01T00:00:00.002Z''\<rparr>,
      \<lparr>id = ascii ''1-a'', name = ascii ''Coffee'', amount = Num 50000, type = ChiTieu,
       createdAt = ascii ''2026-03-01T00:00:00.001Z''\<rparr>]
   \<and> totalExpense
     [\<lparr>id = ascii ''2-b'', name = ascii ''Salary'', amount = Num 2000000, type = ThuNhap,
       createdAt = ascii ''2026-03-01T00:00:00.002Z''\<rparr>,
      \<lparr>id = ascii ''1-a'', name = ascii ''Coffee'', amount = Num 50000, type = ChiTieu,
       createdAt = ascii ''2026-03-01T00:00:00.001Z''\<rparr>] = Num 50000
   \<and> totalIncome
     [\<lparr>id = ascii ''2-b'', name = ascii ''Salary'', amount = Num 2000000, type = ThuNhap,
       createdAt = ascii ''2026-03-01T00:00:00.002Z''\<rparr>,
      \<lparr>id = ascii ''1-a'', name = ascii ''Coffee'', amount = Num 50000, type = ChiTieu,
       createdAt = ascii ''2026-03-01T00:00:00.001Z''\<rparr>] = Num 2000000
   \<and> balance
     [\<lparr>id = ascii ''2-b'', name = ascii ''Salary'', amount = Num 2000000, type = ThuNhap,
       createdAt = ascii ''2026-03-01T00:00:00.002Z''\<rparr>,
      \<lparr>id = ascii ''1-a'', name = ascii ''Coffee'', amount = Num 50000, type = ChiTieu,
       createdAt = ascii ''2026-03-01T00:00:00.001Z''\<rparr>] = Num 1950000"
proof -
  let ?ts = "[\<lparr>id = ascii ''2-b'', name = ascii ''Salary'', amount = Num 2000000, type = ThuNhap,
       createdAt = ascii ''2026-03-01T00:00:00.002Z''\<rparr>,
      \<lparr>id = ascii ''1-a'', name = ascii ''Coffee'', amount = Num 50000, type = ChiTieu,
       createdAt = ascii ''2026-03-01T00:00:00.001Z''\<rparr>]"
  have e: "exactAmounts ?ts" by (simp add: exactAmounts_def wholeAmount_def amountOf_def)
  from aggregate_sums [of ?ts, THEN conjunct2, THEN conjunct2, THEN conjunct2, THEN conjunct2] e
  have "totalExpense ?ts = Num (sum_list (map amountOf (filter (\<lambda>t. type t = ChiTieu) ?ts)))
        \<and> totalIncome ?ts = Num (sum_list (map amountOf (filter (\<lambda>t. type t = ThuNhap) ?ts)))
        \<and> balance ?ts = Num (sum_list (map amountOf (filter (\<lambda>t. type t = ThuNhap) ?ts))
                            - sum_list (map amountOf (filter (\<lambda>t. type t = ChiTieu) ?ts)))"
    by (rule mp)
  then have "totalExpense ?ts = Num 50000 \<and> totalIncome ?ts = Num 2000000
             \<and> balance ?ts = Num 1950000"
    by (simp add: amountOf_def)
  with e show ?thesis by simp
qed

text \<open>
  The claim as stated fails beyond \<open>2^53\<close>: for an expense of 9007199254740992 and an
  expense of 1 the total is 9007199254740992, which is not the sum of the two amounts.
\<close>

theorem aggregate_sums_counterexample:
  "totalExpense
     [\<lparr>id = ascii ''2-b'', name = ascii ''Stamp'', amount = Num 1, type = ChiTieu,
       createdAt = ascii ''2026-03-01T00:00:00.002Z''\<rparr>,
      \<lparr>id = ascii ''1-a'', name = ascii ''House'', amount = Num 9007199254740992, type = ChiTieu,
       createdAt = ascii ''2026-03-01T00:00:00.001Z''\<rparr>] = Num 9007199254740992
   \<and> sum_list (map amountOf
     [\<lparr>id = ascii ''2-b'', name = ascii ''Stamp'', amount = Num 1, type = ChiTieu,
       createdAt = ascii ''2026-03-01T00:00:00.002Z''\<rparr>,
      \<lparr>id = ascii ''1-a'', name = ascii ''House'', amount = Num 9007199254740992, type = ChiTieu,
       createdAt = ascii ''2026-03-01T00:00:00.001Z''\<rparr>]) = 9007199254740993
   \<and> isDouble 9007199254740992 \<and> isDouble 1"
proof -
  have a: "toDouble 1 = Num 1" by (rule toDouble_exact) simp
  have b: "toDouble 9007199254740993 = Num 9007199254740992" by code_simp
  have c: "isDouble 9007199254740992" by (simp add: isDouble_def toDouble_two_53)
  have d: "isDouble 1" by (simp add: isDouble_def a)
  show ?thesis
    by (simp add: totalExpense_def amountOf_def a b c d)
qed

subsection \<open>Decimal strings\<close>

lemma small_nat_cases:
  "k < 10 \<Longrightarrow> k = 0 \<or> k = 1 \<or> k = 2 \<or> k = 3 \<or> k = 4 \<or> k = 5 \<or> k = 6 \<or> k = 7 \<or> k = 8 \<or> k = (9::nat)"
  by arith

lemma digit_word_cases:
  "k < 10 \<Longrightarrow> isDigit (of_nat (48 + k)) \<and> digitVal (of_nat (48 + k)) = int k"
  by (drule small_nat_cases) (auto simp: isDigit_def digitVal_def)

lemma natToString_digits: "list_all isDigit (natToString n)"
proof (induction n rule: natToString.induct)
  case (1 n)
  show ?case
  proof (cases "n < 10")
    case True
    then show ?thesis using digit_word_cases [of n] by (subst natToString.simps) simp
  next
    case False
    have "n mod 10 < 10" by simp
    then have "isDigit (of_nat (48 + n mod 10))" by (rule digit_word_cases [THEN conjunct1])
    with 1 False show ?thesis
      by (subst natToString.simps) simp
  qed
qed

lemma natToString_nonempty: "natToString n \<noteq> []"
  by (subst natToString.simps) simp

lemma digitsVal_snoc: "digitsVal (ds @ [c]) = 10 * digitsVal ds + digitVal c"
  by (simp add: digitsVal_def)

lemma digitsVal_natToString: "digitsVal (natToString n) = int n"
proof (induction n rule: natToString.induct)
  case (1 n)
  show ?case
  proof (cases "n < 10")
    case True
    then show ?thesis using digit_word_cases [of n]
      by (subst natToString.simps) (simp add: digitsVal_def)
  next
    case False
    have "n mod 10 < 10" by simp
    then have d: "digitVal (of_nat (48 + n mod 10)) = int (n mod 10)"
      by (rule digit_word_cases [THEN conjunct2])
    have "digitsVal (natToString n) = 10 * digitsVal (natToString (n div 10)) + int (n mod 10)"
      using False d by (subst natToString.simps) (simp add: digitsVal_snoc)
    also have "\<dots> = int n" using 1 False by (simp add: zmod_int zdiv_int)
    finally show ?thesis .
  qed
qed

lemma natToString_inj: "natToString a = natToString b \<Longrightarrow> a = b"
  by (metis digitsVal_natToString of_nat_eq_iff)

lemma natToString_no_minus: "0x2D \<notin> set (natToString n)"
proof
  assume "0x2D \<in> set (natToString n)"
  with natToString_digits [of n] have "isDigit 0x2D" by (simp add: list_all_iff)
  then show False by (simp add: isDigit_def)
qed

lemma split_at_first:
  "c \<notin> set xs \<Longrightarrow> c \<notin> set ys \<Longrightarrow> xs @ c # u = ys @ c # v \<Longrightarrow> xs = ys \<and> u = v"
proof (induction xs arbitrary: ys)
  case Nil
  then show ?case by (cases ys) auto
next
  case (Cons x xs)
  then show ?case by (cases ys) auto
qed

lemma natToString_tail_inj:
  "natToString x @ 0x2D # u = natToString y @ 0x2D # v \<Longrightarrow> x = y \<and> u = v"
proof -
  assume "natToString x @ 0x2D # u = natToString y @ 0x2D # v"
  from split_at_first [OF natToString_no_minus natToString_no_minus this]
  show ?thesis by (auto dest: natToString_inj)
qed

lemma natToString_hd: "hd (natToString x @ u) \<noteq> 0x2D"
  using natToString_no_minus [of x] natToString_nonempty [of x]
  by (cases "natToString x") auto

lemma intToString_neg: "i < 0 \<Longrightarrow> intToString i = 0x2D # natToString (nat (- i))"
  by (simp add: intToString_def)

lemma intToString_nonneg: "\<not> i < 0 \<Longrightarrow> intToString i = natToString (nat i)"
  by (simp add: intToString_def)

lemma newId_inj: "newId a r = newId b r' \<longleftrightarrow> a = b \<and> r = r'"
proof
  assume eq: "newId a r = newId b r'"
  show "a = b \<and> r = r'"
  proof (cases "a < 0")
    case a: True
    show ?thesis
    proof (cases "b < 0")
      case True
      from eq have "natToString (nat (- a)) @ 0x2D # r = natToString (nat (- b)) @ 0x2D # r'"
        unfolding newId_def intToString_neg [OF a] intToString_neg [OF True] by simp
      then have "nat (- a) = nat (- b) \<and> r = r'" by (rule natToString_tail_inj)
      with a True show ?thesis by linarith
    next
      case False
      from eq have "0x2D # natToString (nat (- a)) @ 0x2D # r = natToString (nat b) @ 0x2D # r'"
        unfolding newId_def intToString_neg [OF a] intToString_nonneg [OF False] by simp
      then have "hd (natToString (nat b) @ 0x2D # r') = 0x2D" by (metis list.sel(1))
      with natToString_hd show ?thesis by blast
    qed
  next
    case a: False
    show ?thesis
    proof (cases "b < 0")
      case True
      from eq have "natToString (nat a) @ 0x2D # r = 0x2D # natToString (nat (- b)) @ 0x2D # r'"
        unfolding newId_def intToString_neg [OF True] intToString_nonneg [OF a] by simp
      then have "hd (natToString (nat a) @ 0x2D # r) = 0x2D" by (metis list.sel(1))
      with natToString_hd show ?thesis by blast
    next
      case False
      from eq have "natToString (nat a) @ 0x2D # r = natToString (nat b) @ 0x2D # r'"
        unfolding newId_def intToString_nonneg [OF a] intToString_nonneg [OF False] by simp
      then have "nat a = nat b \<and> r = r'" by (rule natToString_tail_inj)
      with a False show ?thesis by linarith
    qed
  qed
next
  assume "a = b \<and> r = r'"
  then show "newId a r = newId b r'" by simp
qed

subsection \<open>Adding\<close>

text \<open>
  C3, as the code has it. When the trimmed name is not empty and the digits of the amount
  field parse to a positive integer, adding puts the new record first in the collection,
  in front of the old records, so the length grows by exactly one. The record carries the
  trimmed name, the amount as the platform holds it, the type of the form, the time stamp
  of the clock in ISO form, and an id made of the clock reading and the random digits. A
  different clock reading or different random digits give a different id; so the id is
  new to a collection whose ids were all made from other readings, and distinct ids then
  stay distinct.
\<close>

theorem add_valid_prepends:
  assumes "trim (formName s) \<noteq> []"
    and "parseInt (removeNonDigits (formAmount s)) = Num n"
    and "0 < n"
  shows "transactions (handleAddTransaction env s) =
           \<lparr> id = newId (dateNow env) (randomHex env), name = trim (formName s),
             amount = toDouble n, type = formType s,
             createdAt = toISOString (newDateNow env) \<rparr> # transactions s
         \<and> length (transactions (handleAddTransaction env s)) = length (transactions s) + 1
         \<and> (newId (dateNow env) (randomHex env) = newId now' rnd'
              \<longleftrightarrow> dateNow env = now' \<and> randomHex env = rnd')
         \<and> ((\<forall>t \<in> set (transactions s).
                \<exists>a r. id t = newId a r \<and> (a \<noteq> dateNow env \<or> r \<noteq> randomHex env))
              \<longrightarrow> newId (dateNow env) (randomHex env) \<notin> id ` set (transactions s)
                  \<and> (distinct (map id (transactions s))
                       \<longrightarrow> distinct (map id (transactions (handleAddTransaction env s)))))"
proof -
  have tr: "transactions (handleAddTransaction env s) =
           \<lparr> id = newId (dateNow env) (randomHex env), name = trim (formName s),
             amount = toDouble n, type = formType s,
             createdAt = toISOString (newDateNow env) \<rparr> # transactions s"
    using assms by (simp add: handleAddTransaction_def)
  have fresh: "newId (dateNow env) (randomHex env) \<notin> id ` set (transactions s)"
    if h: "\<forall>t \<in> set (transactions s).
             \<exists>a r. id t = newId a r \<and> (a \<noteq> dateNow env \<or> r \<noteq> randomHex env)"
  proof
    assume "newId (dateNow env) (randomHex env) \<in> id ` set (transactions s)"
    then obtain t where t: "t \<in> set (transactions s)"
      and e: "id t = newId (dateNow env) (randomHex env)" by auto
    from h t obtain a r where "id t = newId a r" and d: "a \<noteq> dateNow env \<or> r \<noteq> randomHex env"
      by blast
    with e have "newId a r = newId (dateNow env) (randomHex env)" by simp
    with d show False by (simp add: newId_inj)
  qed
  from tr fresh show ?thesis by (simp add: newId_inj)
qed

theorem add_valid_prepends_witness:
  "trim (formName (initialState\<lparr>transactions :=
        [\<lparr>id = ascii ''1772323100000-a1b2'', name = ascii ''Tea'', amount = Num 30000,
          type = ChiTieu, createdAt = ascii ''2026-02-28T23:58:20.000Z''\<rparr>],
        formName := ascii '' Coffee '', formAmount := ascii ''50.000''\<rparr>)) \<noteq> []
   \<and> parseInt (removeNonDigits (formAmount (initialState\<lparr>transactions :=
        [\<lparr>id = ascii ''1772323100000-a1b2'', name = ascii ''Tea'', amount = Num 30000,
          type = ChiTieu, createdAt = ascii ''2026-02-28T23:58:20.000Z''\<rparr>],
        formName := ascii '' Coffee '', formAmount := ascii ''50.000''\<rparr>))) = Num 50000
   \<and> (0::int) < 50000
   \<and> ascii ''1772323100000-a1b2'' = newId 1772323100000 (ascii ''a1b2'')
   \<and> transactions (handleAddTransaction
         \<lparr>dateNow = 1772323199999, randomHex = ascii ''8f3c'', newDateNow = 1772323200001\<rparr>
         (initialState\<lparr>transactions :=
        [\<lparr>id = ascii ''1772323100000-a1b2'', name = ascii ''Tea'', amount = Num 30000,
          type = ChiTieu, createdAt = ascii ''2026-02-28T23:58:20.000Z''\<rparr>],
        formName := ascii '' Coffee '', formAmount := ascii ''50.000''\<rparr>)) =
       [\<lparr> id = ascii ''1772323199999-8f3c'', name = ascii ''Coffee'', amount = Num 50000,
          type = ChiTieu, createdAt = ascii ''2026-03-01T00:00:00.001Z'' \<rparr>,
        \<lparr>id = ascii ''1772323100000-a1b2'', name = ascii ''Tea'', amount = Num 30000,
          type = ChiTieu, createdAt = ascii ''2026-02-28T23:58:20.000Z''\<rparr>]
   \<and> distinct (map id (transactions (handleAddTransaction
         \<lparr>dateNow = 1772323199999, randomHex = ascii ''8f3c'', newDateNow = 1772323200001\<rparr>
         (initialState\<lparr>transactions :=
        [\<lparr>id = ascii ''1772323100000-a1b2'', name = ascii ''Tea'', amount = Num 30000,
          type = ChiTieu, createdAt = ascii ''2026-02-28T23:58:20.000Z''\<rparr>],
        formName := ascii '' Coffee '', formAmount := ascii ''50.000''\<rparr>))))"
proof -
  let ?t = "\<lparr>id = ascii ''1772323100000-a1b2'', name = ascii ''Tea'', amount = Num 30000,
          type = ChiTieu, createdAt = ascii ''2026-02-28T23:58:20.000Z''\<rparr>"
  let ?s = "initialState\<lparr>transactions := [?t],
        formName := ascii '' Coffee '', formAmount := ascii ''50.000''\<rparr>"
  let ?env = "\<lparr>dateNow = 1772323199999, randomHex = ascii ''8f3c'', newDateNow = 1772323200001\<rparr>"
  have h1: "trim (formName ?s) \<noteq> []" by code_simp
  have h2: "parseInt (removeNonDigits (formAmount ?s)) = Num 50000" by code_simp
  have h3: "(0::int) < 50000" by simp
  have e0: "ascii ''1772323100000-a1b2'' = newId 1772323100000 (ascii ''a1b2'')"
    by (simp add: newId_def intToString_def natToString.simps ascii_def)
  have e1: "newId 1772323199999 (ascii ''8f3c'') = ascii ''1772323199999-8f3c''"
    by (simp add: newId_def intToString_def natToString.simps ascii_def)
  have e2: "toISOString 1772323200001 = ascii ''2026-03-01T00:00:00.001Z''" by code_simp
  have e3: "trim (ascii '' Coffee '') = ascii ''Coffee''" by code_simp
  have e4: "transactions ?s = [?t]" "formType ?s = ChiTieu" by (simp_all add: initialState_def)
  have e5: "toDouble 50000 = Num 50000" by (rule toDouble_exact) simp
  have old: "\<forall>t \<in> set (transactions ?s).
               \<exists>a r. id t = newId a r \<and> (a \<noteq> dateNow ?env \<or> r \<noteq> randomHex ?env)"
  proof -
    have "id ?t = newId 1772323100000 (ascii ''a1b2'')
          \<and> ((1772323100000::int) \<noteq> dateNow ?env \<or> ascii ''a1b2'' \<noteq> randomHex ?env)"
      using e0 by simp
    then have "\<exists>a r. id ?t = newId a r \<and> (a \<noteq> dateNow ?env \<or> r \<noteq> randomHex ?env)"
      by blast
    then show ?thesis by (simp only: e4 list.set ball_simps)
  qed
  have d: "distinct (map id (transactions ?s))" by (simp add: e4)
  note a = add_valid_prepends [OF h1 h2 h3, of ?env]
  have c1: "transactions (handleAddTransaction ?env ?s) =
       [\<lparr> id = ascii ''1772323199999-8f3c'', name = ascii ''Coffee'', amount = Num 50000,
          type = ChiTieu, createdAt = ascii ''2026-03-01T00:00:00.001Z'' \<rparr>, ?t]"
    using a [THEN conjunct1] by (simp add: e1 e2 e3 e4 e5)
  from a [THEN conjunct2, THEN conjunct2, THEN conjunct2] old
  have "newId (dateNow ?env) (randomHex ?env) \<notin> id ` set (transactions ?s)
        \<and> (distinct (map id (transactions ?s))
             \<longrightarrow> distinct (map id (transactions (handleAddTransaction ?env ?s))))"
    by (rule mp)
  with d have c2: "distinct (map id (transactions (handleAddTransaction ?env ?s)))" by blast
  from h1 h2 h3 e0 c1 c2 show ?thesis by (intro conjI)
qed

text \<open>
  The claim as stated fails in its fresh unique id: the handler never looks at the ids of
  the collection. With a record in the collection that was made at the same clock reading
  with the same random digits, the new record gets the id of that record.
\<close>

theorem add_fresh_id_counterexample:
  "trim (formName (initialState\<lparr>transactions :=
        [\<lparr>id = ascii ''1772323199999-8f3c'', name = ascii ''Tea'', amount = Num 30000,
          type = ChiTieu, createdAt = ascii ''2026-03-01T00:00:00.000Z''\<rparr>],
        formName := ascii ''Coffee'', formAmount := ascii ''50.000''\<rparr>)) \<noteq> []
   \<and> parseInt (removeNonDigits (formAmount (initialState\<lparr>transactions :=
        [\<lparr>id = ascii ''1772323199999-8f3c'', name = ascii ''Tea'', amount = Num 30000,
          type = ChiTieu, createdAt = ascii ''2026-03-01T00:00:00.000Z''\<rparr>],
        formName := ascii ''Coffee'', formAmount := ascii ''50.000''\<rparr>))) = Num 50000
   \<and> map id (transactions (handleAddTransaction
         \<lparr>dateNow = 1772323199999, randomHex = ascii ''8f3c'', newDateNow = 1772323200001\<rparr>
         (initialState\<lparr>transactions :=
        [\<lparr>id = ascii ''1772323199999-8f3c'', name = ascii ''Tea'', amount = Num 30000,
          type = ChiTieu, createdAt = ascii ''2026-03-01T00:00:00.000Z''\<rparr>],
        formName := ascii ''Coffee'', formAmount := ascii ''50.000''\<rparr>)))
     = [ascii ''1772323199999-8f3c'', ascii ''1772323199999-8f3c'']"
proof -
  let ?t = "\<lparr>id = ascii ''1772323199999-8f3c'', name = ascii ''Tea'', amount = Num 30000,
          type = ChiTieu, createdAt = ascii ''2026-03-01T00:00:00.000Z''\<rparr>"
  let ?s = "initialState\<lparr>transactions := [?t],
        formName := ascii ''Coffee'', formAmount := ascii ''50.000''\<rparr>"
  let ?env = "\<lparr>dateNow = 1772323199999, randomHex = ascii ''8f3c'', newDateNow = 1772323200001\<rparr>"
  have h1: "trim (formName ?s) \<noteq> []" by code_simp
  have h2: "parseInt (removeNonDigits (formAmount ?s)) = Num 50000" by code_simp
  have e1: "newId 1772323199999 (ascii ''8f3c'') = ascii ''1772323199999-8f3c''"
    by (simp add: newId_def intToString_def natToString.simps ascii_def)
  have "map id (transactions (handleAddTransaction ?env ?s))
        = [ascii ''1772323199999-8f3c'', ascii ''1772323199999-8f3c'']"
    using h1 h2 by (simp add: handleAddTransaction_def e1)
  with h1 h2 show ?thesis by (intro conjI)
qed

text \<open>
  The guard of the handler reads the same on the whole number of the digits as on the
  double that the platform holds for it.
\<close>

lemma guard_on_double: "js_le (toDouble n) (Num 0) \<longleftrightarrow> n \<le> 0"
proof (cases "0 < n")
  case True
  with toDouble_pos [OF True] show ?thesis by auto
next
  case False
  show ?thesis
  proof (cases "n = 0")
    case True
    then show ?thesis by (simp add: toDouble_zero)
  next
    case nz: False
    with False have p: "0 < - n" by simp
    have "toDouble n = js_neg (toDouble (- n))" using toDouble_neg [of "- n"] by simp
    with toDouble_pos [OF p] False show ?thesis by auto
  qed
qed

text \<open>
  C4. When the trimmed name is empty, or the amount field holds no number, or its number
  is at most zero, adding returns the state as it was: the collection and the form are
  unchanged, and no error is raised (the handler returns a state on every input).
\<close>

theorem add_invalid_noop:
  assumes "trim (formName s) = []
           \<or> parseInt (removeNonDigits (formAmount s)) = NaN
           \<or> js_le (parseInt (removeNonDigits (formAmount s))) (Num 0)"
  shows "handleAddTransaction env s = s"
  using assms
  by (cases "parseInt (removeNonDigits (formAmount s))")
     (auto simp: handleAddTransaction_def)


theorem add_invalid_noop_witness:
  "js_le (parseInt (removeNonDigits (formAmount
       (initialState\<lparr>formName := ascii ''Coffee'', formAmount := ascii ''0''\<rparr>)))) (Num 0)
   \<and> handleAddTransaction
         \<lparr>dateNow = 1772323199999, randomHex = ascii ''8f3c'', newDateNow = 1772323200001\<rparr>
         (initialState\<lparr>formName := ascii ''Coffee'', formAmount := ascii ''0''\<rparr>)
       = initialState\<lparr>formName := ascii ''Coffee'', formAmount := ascii ''0''\<rparr>"
proof -
  let ?s = "initialState\<lparr>formName := ascii ''Coffee'', formAmount := ascii ''0''\<rparr>"
  have h: "js_le (parseInt (removeNonDigits (formAmount ?s))) (Num 0)" by code_simp
  then have "trim (formName ?s) = [] \<or> parseInt (removeNonDigits (formAmount ?s)) = NaN
             \<or> js_le (parseInt (removeNonDigits (formAmount ?s))) (Num 0)" by blast
  from add_invalid_noop [OF this] h show ?thesis by blast
qed

subsection \<open>Removing\<close>

lemma length_filter_split:
  "length xs = length (filter P xs) + length (filter (\<lambda>x. \<not> P x) xs)"
  by (induction xs) simp_all

lemma distinct_ids_at_most_one:
  "distinct (map id ts) \<Longrightarrow> length (filter (\<lambda>t. id t = i) ts) \<le> 1"
proof (induction ts)
  case Nil
  show ?case by simp
next
  case (Cons t ts)
  show ?case
  proof (cases "id t = i")
    case True
    with Cons.prems have "i \<notin> id ` set ts" by auto
    then have "filter (\<lambda>t. id t = i) ts = []" by (auto simp: filter_empty_conv)
    with True show ?thesis by simp
  next
    case False
    with Cons show ?thesis by simp
  qed
qed

text \<open>
  C6, as the code has it. Removing by id keeps exactly the records with another id, in
  their order; it changes nothing when no record has the id; doing it twice is the same as
  doing it once; the length drops by the number of records that carry the id, which is at
  most one when the ids of the collection are pairwise distinct.
\<close>

theorem remove_by_id:
  "transactions (handleDeleteTransaction i s) = filter (\<lambda>t. id t \<noteq> i) (transactions s)
   \<and> (i \<notin> id ` set (transactions s) \<longrightarrow> handleDeleteTransaction i s = s)
   \<and> handleDeleteTransaction i (handleDeleteTransaction i s) = handleDeleteTransaction i s
   \<and> length (transactions s) =
       length (transactions (handleDeleteTransaction i s))
       + length (filter (\<lambda>t. id t = i) (transactions s))
   \<and> (distinct (map id (transactions s)) \<longrightarrow>
        length (transactions s) \<le> length (transactions (handleDeleteTransaction i s)) + 1)
   \<and> subseq (transactions (handleDeleteTransaction i s)) (transactions s)"
proof -
  have a: "transactions (handleDeleteTransaction i s) = filter (\<lambda>t. id t \<noteq> i) (transactions s)"
    by (simp add: handleDeleteTransaction_def)
  have b: "handleDeleteTransaction i s = s" if "i \<notin> id ` set (transactions s)"
  proof -
    from that have "filter (\<lambda>t. id t \<noteq> i) (transactions s) = transactions s"
      by (auto simp: filter_id_conv)
    then show ?thesis by (simp add: handleDeleteTransaction_def)
  qed
  have c: "handleDeleteTransaction i (handleDeleteTransaction i s) = handleDeleteTransaction i s"
    by (simp add: handleDeleteTransaction_def)
  have d: "length (transactions s) =
           length (transactions (handleDeleteTransaction i s))
           + length (filter (\<lambda>t. id t = i) (transactions s))"
    unfolding a using length_filter_split [of "transactions s" "\<lambda>t. id t \<noteq> i"] by simp
  have e: "length (transactions s) \<le> length (transactions (handleDeleteTransaction i s)) + 1"
    if "distinct (map id (transactions s))"
    using d distinct_ids_at_most_one [OF that, of i] by linarith
  have f: "subseq (transactions (handleDeleteTransaction i s)) (transactions s)"
    unfolding a by simp
  from a b c d e f show ?thesis by (intro conjI impI)
qed

theorem remove_by_id_witness:
  "ascii ''9-z'' \<notin> id ` set [\<lparr>id = ascii ''1-a'', name = ascii ''Coffee'', amount = Num 50000, type = ChiTieu,
                                createdAt = ascii ''2026-03-01T00:00:00.001Z''\<rparr>]
   \<and> distinct (map id [\<lparr>id = ascii ''1-a'', name = ascii ''Coffee'', amount = Num 50000, type = ChiTieu,
                        createdAt = ascii ''2026-03-01T00:00:00.001Z''\<rparr>])
   \<and> transactions (handleDeleteTransaction (ascii ''1-a'')
        (initialState\<lparr>transactions :=
           [\<lparr>id = ascii ''1-a'', name = ascii ''Coffee'', amount = Num 50000, type = ChiTieu,
             createdAt = ascii ''2026-03-01T00:00:00.001Z''\<rparr>]\<rparr>)) = []
   \<and> handleDeleteTransaction (ascii ''9-z'')
        (initialState\<lparr>transactions :=
           [\<lparr>id = ascii ''1-a'', name = ascii ''Coffee'', amount = Num 50000, type = ChiTieu,
             createdAt = ascii ''2026-03-01T00:00:00.001Z''\<rparr>]\<rparr>)
       = initialState\<lparr>transactions :=
           [\<lparr>id = ascii ''1-a'', name = ascii ''Coffee'', amount = Num 50000, type = ChiTieu,
             createdAt = ascii ''2026-03-01T00:00:00.001Z''\<rparr>]\<rparr>"
proof -
  let ?t = "\<lparr>id = ascii ''1-a'', name = ascii ''Coffee'', amount = Num 50000, type = ChiTieu,
             createdAt = ascii ''2026-03-01T00:00:00.001Z''\<rparr>"
  let ?s = "initialState\<lparr>transactions := [?t]\<rparr>"
  have ne: "ascii ''9-z'' \<noteq> ascii ''1-a''" by (simp add: ascii_def)
  have tr: "transactions ?s = [?t]" by simp
  have h: "ascii ''9-z'' \<notin> id ` set (transactions ?s)" unfolding tr using ne by simp
  have g: "distinct (map id (transactions ?s))" unfolding tr by simp
  have c1: "transactions (handleDeleteTransaction (ascii ''1-a'') ?s) = []"
    using remove_by_id [of "ascii ''1-a''" ?s, THEN conjunct1] unfolding tr by simp
  have c2: "handleDeleteTransaction (ascii ''9-z'') ?s = ?s"
    using remove_by_id [of "ascii ''9-z''" ?s, THEN conjunct2, THEN conjunct1] h by (rule mp)
  from h g c1 c2 show ?thesis unfolding tr by (intro conjI)
qed

text \<open>
  The claim as stated fails where two records share an id: a single removal then drops
  both, so the length falls by two.
\<close>

theorem remove_length_counterexample:
  "\<not> length (transactions (initialState\<lparr>transactions :=
          [\<lparr>id = ascii ''1-a'', name = ascii ''Coffee'', amount = Num 50000, type = ChiTieu,
            createdAt = ascii ''2026-03-01T00:00:00.001Z''\<rparr>,
           \<lparr>id = ascii ''1-a'', name = ascii ''Tea'', amount = Num 30000, type = ChiTieu,
            createdAt = ascii ''2026-03-01T00:00:00.001Z''\<rparr>]\<rparr>))
      \<le> length (transactions (handleDeleteTransaction (ascii ''1-a'')
          (initialState\<lparr>transactions :=
            [\<lparr>id = ascii ''1-a'', name = ascii ''Coffee'', amount = Num 50000, type = ChiTieu,
              createdAt = ascii ''2026-03-01T00:00:00.001Z''\<rparr>,
             \<lparr>id = ascii ''1-a'', name = ascii ''Tea'', amount = Num 30000, type = ChiTieu,
              createdAt = ascii ''2026-03-01T00:00:00.001Z''\<rparr>]\<rparr>))) + 1"
  by (simp add: handleDeleteTransaction_def)

subsection \<open>Comparisons and parsing\<close>

lemma js_le_NaN_right [simp]: "js_le x NaN = False"
  by (cases x) simp_all

lemma js_le_NegInfinity_Num [simp]: "js_le NegInfinity (Num a) = True"
  by simp

lemma TimeClip_cases: "TimeClip t = NaN \<or> TimeClip t = Num t"
  by (simp add: TimeClip_def)

lemma Date_parse_cases: "Date_parse tza s = NaN \<or> (\<exists>t. Date_parse tza s = Num t \<and> abs t \<le> maxTime)"
  by (auto simp: Date_parse_def TimeClip_def split: option.splits)

lemma inWindow_NaN: "Date_parse tza (createdAt t) = NaN \<Longrightarrow> \<not> inWindow tza a b t"
  by (simp add: inWindow_def getTime_def js_ge_def)

lemma inWindow_unbounded: "inWindow tza NegInfinity PosInfinity t = hasTimestamp tza t"
  using Date_parse_cases [of tza "createdAt t"]
  by (auto simp: inWindow_def getTime_def js_ge_def hasTimestamp_def)

lemma splitOn_no_sep: "p \<in> set (splitOn c s) \<Longrightarrow> c \<notin> set p"
proof (induction s arbitrary: p)
  case Nil
  then show ?case by simp
next
  case (Cons x xs)
  show ?case
  proof (cases "x = c")
    case True
    with Cons show ?thesis by auto
  next
    case False
    show ?thesis
    proof (cases "splitOn c xs")
      case Nil
      with Cons.prems False show ?thesis by simp
    next
      case (Cons q qs)
      with Cons.prems Cons.IH False show ?thesis by auto
    qed
  qed
qed

lemma digitVal_nonneg: "isDigit c \<Longrightarrow> 0 \<le> digitVal c"
  by (simp add: isDigit_def digitVal_def word_le_def)

lemma foldl_digits_nonneg:
  "list_all isDigit ds \<Longrightarrow> 0 \<le> a \<Longrightarrow> 0 \<le> foldl (\<lambda>acc c. 10 * acc + digitVal c) a ds"
proof (induction ds arbitrary: a)
  case Nil
  then show ?case by simp
next
  case (Cons d ds)
  from Cons.prems have "0 \<le> 10 * a + digitVal d" using digitVal_nonneg [of d] by simp
  with Cons show ?case by simp
qed

lemma digitsVal_nonneg: "list_all isDigit ds \<Longrightarrow> 0 \<le> digitsVal ds"
  unfolding digitsVal_def by (rule foldl_digits_nonneg) simp_all

lemma takeWhile_all: "list_all P (takeWhile P xs)"
  by (induction xs) simp_all

lemma hd_dropWhile_in_set: "dropWhile P xs \<noteq> [] \<Longrightarrow> hd (dropWhile P xs) \<in> set xs"
  by (metis hd_in_set set_dropWhileD)

lemma parseInt_no_minus:
  assumes "0x2D \<notin> set p"
  shows "parseInt p = NaN \<or> (\<exists>n\<ge>0. parseInt p = Num n)"
proof -
  let ?t = "trimStart p"
  have "\<not> (?t \<noteq> [] \<and> hd ?t = 0x2D)"
  proof
    assume "?t \<noteq> [] \<and> hd ?t = 0x2D"
    then have "0x2D \<in> set p"
      using hd_dropWhile_in_set [of isWhiteSpace p] unfolding trimStart_def by metis
    with assms show False by simp
  qed
  then show ?thesis
    using digitsVal_nonneg [OF takeWhile_all [of isDigit]]
    by (auto simp: parseInt_def Let_def)
qed

lemma parseInt_finite: "parseInt p \<noteq> PosInfinity \<and> parseInt p \<noteq> NegInfinity"
  by (simp add: parseInt_def Let_def)

lemma month_parts_finite:
  "map parseInt (splitOn 0x2D fm) = ps \<Longrightarrow> PosInfinity \<notin> set ps \<and> NegInfinity \<notin> set ps"
  using parseInt_finite by (metis (no_types, lifting) imageE list.set_map)

lemma month_parts_nonneg:
  "map parseInt (splitOn 0x2D fm) = ps \<Longrightarrow> Num n \<in> set ps \<Longrightarrow> 0 \<le> n"
proof -
  assume a: "map parseInt (splitOn 0x2D fm) = ps" and b: "Num n \<in> set ps"
  then obtain p where "p \<in> set (splitOn 0x2D fm)" and "parseInt p = Num n" by auto
  with splitOn_no_sep [of p "0x2D" fm] parseInt_no_minus [of p] show ?thesis by auto
qed

lemma filterByMonth_monthSpec:
  "filterByMonth tza fm ts =
     (case monthSpec fm of
        None \<Rightarrow> ts
      | Some (y, m) \<Rightarrow>
          filter (inWindow tza (newDate tza (Num y) (Num (m - 1)) (Num 1) 0 0 0 0)
                               (newDate tza (Num y) (Num m) (Num 0) 23 59 59 999)) ts)"
proof (cases "fm = []")
  case True
  then show ?thesis by (simp add: filterByMonth_def monthSpec_def)
next
  case False
  show ?thesis
  proof (cases "map parseInt (splitOn 0x2D fm)")
    case Nil
    with False show ?thesis by (simp add: filterByMonth_def monthSpec_def)
  next
    case (Cons y r)
    show ?thesis
    proof (cases r)
      case Nil
      with Cons False show ?thesis by (cases y) (simp_all add: filterByMonth_def monthSpec_def)
    next
      case C2: (Cons m r')
      have ny: "0 \<le> n" if "y = Num n" for n
        using month_parts_nonneg [OF Cons, of n] that by simp
      have nm: "0 \<le> n" if "m = Num n" for n
        using month_parts_nonneg [OF Cons, of n] that C2 by simp
      have fin: "y \<noteq> PosInfinity" "y \<noteq> NegInfinity" "m \<noteq> PosInfinity" "m \<noteq> NegInfinity"
        using month_parts_finite [OF Cons] C2 by auto
      show ?thesis
      proof (cases y)
        case y: (Num a)
        show ?thesis
        proof (cases m)
          case m: (Num b)
          from ny [OF y] nm [OF m] have "(0 < a \<and> 0 < b) = (\<not> (a = 0 \<or> b = 0))" by auto
          with Cons C2 y m False show ?thesis
            by (simp add: filterByMonth_def monthSpec_def getTime_def)
        qed (use Cons C2 y False fin in \<open>simp_all add: filterByMonth_def monthSpec_def\<close>)
      qed (use Cons C2 False fin in \<open>simp_all add: filterByMonth_def monthSpec_def\<close>)
    qed
  qed
qed

subsection \<open>Records without a time stamp\<close>

text \<open>
  C10. A record whose \<^verbatim>\<open>createdAt\<close> does not parse to a time value is left out by the
  month filter when the year and month are valid, and by the range filter whatever its
  bounds are, absent bounds included. It stays with the filter off, and it also stays in
  month mode when the year or the month is absent or invalid, as the list is then returned
  unfiltered.
\<close>

theorem unparseable_createdAt_excluded:
  assumes "Date_parse tza (createdAt t) = NaN"
  shows "(filterMode s = FilterMonth \<and> monthSpec (filterMonth s) \<noteq> None
            \<longrightarrow> t \<notin> set (filteredTransactions tza s))
         \<and> (filterMode s = FilterRange \<longrightarrow> t \<notin> set (filteredTransactions tza s))
         \<and> (filterMode s = FilterAll
            \<longrightarrow> (t \<in> set (filteredTransactions tza s) \<longleftrightarrow> t \<in> set (transactions s)))
         \<and> (filterMode s = FilterMonth \<and> monthSpec (filterMonth s) = None
            \<longrightarrow> (t \<in> set (filteredTransactions tza s) \<longleftrightarrow> t \<in> set (transactions s)))"
proof -
  note w = inWindow_NaN [OF assms]
  have month: "t \<notin> set (filteredTransactions tza s)"
    if "filterMode s = FilterMonth" and "monthSpec (filterMonth s) \<noteq> None"
    using that w by (auto simp: filteredTransactions_def filterByMonth_monthSpec)
  have range: "t \<notin> set (filteredTransactions tza s)" if "filterMode s = FilterRange"
    using that w by (simp add: filteredTransactions_def filterByRange_def Let_def)
  have all: "t \<in> set (filteredTransactions tza s) \<longleftrightarrow> t \<in> set (transactions s)"
    if "filterMode s = FilterAll"
    using that by (simp add: filteredTransactions_def)
  have open_month: "t \<in> set (filteredTransactions tza s) \<longleftrightarrow> t \<in> set (transactions s)"
    if "filterMode s = FilterMonth" and "monthSpec (filterMonth s) = None"
    using that by (simp add: filteredTransactions_def filterByMonth_monthSpec)
  from month range all open_month show ?thesis by blast
qed

theorem unparseable_createdAt_excluded_witness:
  "Date_parse 25200000 (createdAt \<lparr>id = ascii ''1-a'', name = ascii ''Coffee'', amount = Num 50000,
       type = ChiTieu, createdAt = ascii ''Invalid Date''\<rparr>) = NaN
   \<and> monthSpec (ascii ''2026-03'') \<noteq> None
   \<and> monthSpec (ascii ''2026'') = None
   \<and> \<lparr>id = ascii ''1-a'', name = ascii ''Coffee'', amount = Num 50000, type = ChiTieu,
        createdAt = ascii ''Invalid Date''\<rparr>
       \<notin> set (filteredTransactions 25200000 (initialState\<lparr>transactions :=
            [\<lparr>id = ascii ''1-a'', name = ascii ''Coffee'', amount = Num 50000, type = ChiTieu,
              createdAt = ascii ''Invalid Date''\<rparr>],
            filterMode := FilterMonth, filterMonth := ascii ''2026-03''\<rparr>))
   \<and> \<lparr>id = ascii ''1-a'', name = ascii ''Coffee'', amount = Num 50000, type = ChiTieu,
        createdAt = ascii ''Invalid Date''\<rparr>
       \<notin> set (filteredTransactions 25200000 (initialState\<lparr>transactions :=
            [\<lparr>id = ascii ''1-a'', name = ascii ''Coffee'', amount = Num 50000, type = ChiTieu,
              createdAt = ascii ''Invalid Date''\<rparr>],
            filterMode := FilterRange\<rparr>))
   \<and> \<lparr>id = ascii ''1-a'', name = ascii ''Coffee'', amount = Num 50000, type = ChiTieu,
        createdAt = ascii ''Invalid Date''\<rparr>
       \<in> set (filteredTransactions 25200000 (initialState\<lparr>transactions :=
            [\<lparr>id = ascii ''1-a'', name = ascii ''Coffee'', amount = Num 50000, type = ChiTieu,
              createdAt = ascii ''Invalid Date''\<rparr>]\<rparr>))
   \<and> \<lparr>id = ascii ''1-a'', name = ascii ''Coffee'', amount = Num 50000, type = ChiTieu,
        createdAt = ascii ''Invalid Date''\<rparr>
       \<in> set (filteredTransactions 25200000 (initialState\<lparr>transactions :=
            [\<lparr>id = ascii ''1-a'', name = ascii ''Coffee'', amount = Num 50000, type = ChiTieu,
              createdAt = ascii ''Invalid Date''\<rparr>],
            filterMode := FilterMonth, filterMonth := ascii ''2026''\<rparr>))"
proof -
  let ?t = "\<lparr>id = ascii ''1-a'', name = ascii ''Coffee'', amount = Num 50000, type = ChiTieu,
             createdAt = ascii ''Invalid Date''\<rparr>"
  let ?s = "initialState\<lparr>transactions := [?t]\<rparr>"
  have p: "Date_parse 25200000 (ascii ''Invalid Date'') = NaN" by code_simp
  then have h: "Date_parse 25200000 (createdAt ?t) = NaN" by simp
  have v: "monthSpec (ascii ''2026-03'') \<noteq> None" by code_simp
  have v': "monthSpec (ascii ''2026'') = None" by code_simp
  have m: "filterMode initialState = FilterAll" by (simp add: initialState_def)
  note u = unparseable_createdAt_excluded [OF h]
  have c1: "?t \<notin> set (filteredTransactions 25200000
              (?s\<lparr>filterMode := FilterMonth, filterMonth := ascii ''2026-03''\<rparr>))"
    using u [of "?s\<lparr>filterMode := FilterMonth, filterMonth := ascii ''2026-03''\<rparr>", THEN conjunct1] v
    by simp
  have c2: "?t \<notin> set (filteredTransactions 25200000 (?s\<lparr>filterMode := FilterRange\<rparr>))"
    using u [of "?s\<lparr>filterMode := FilterRange\<rparr>", THEN conjunct2, THEN conjunct1] by simp
  have c3: "?t \<in> set (filteredTransactions 25200000 ?s)"
    using u [of ?s, THEN conjunct2, THEN conjunct2, THEN conjunct1] m by simp
  have c4: "?t \<in> set (filteredTransactions 25200000
              (?s\<lparr>filterMode := FilterMonth, filterMonth := ascii ''2026''\<rparr>))"
    using u [of "?s\<lparr>filterMode := FilterMonth, filterMonth := ascii ''2026''\<rparr>",
             THEN conjunct2, THEN conjunct2, THEN conjunct2] v'
    by simp
  from h v v' c1 c2 c3 c4 show ?thesis by (intro conjI)
qed

text \<open>
  The claim's last clause fails: mode all is not the only mode that keeps such a record.
  In month mode with no month chosen, the state right after the mode is switched, the list
  comes back unfiltered with the record in it.
\<close>

theorem unparseable_createdAt_counterexample:
  "Date_parse 25200000 (ascii ''Invalid Date'') = NaN
   \<and> filteredTransactions 25200000 (initialState\<lparr>transactions :=
        [\<lparr>id = ascii ''1-a'', name = ascii ''Coffee'', amount = Num 50000, type = ChiTieu,
          createdAt = ascii ''Invalid Date''\<rparr>],
        filterMode := FilterMonth, filterMonth := []\<rparr>)
     = [\<lparr>id = ascii ''1-a'', name = ascii ''Coffee'', amount = Num 50000, type = ChiTieu,
          createdAt = ascii ''Invalid Date''\<rparr>]"
proof -
  have p: "Date_parse 25200000 (ascii ''Invalid Date'') = NaN" by code_simp
  have f: "filteredTransactions 25200000 (initialState\<lparr>transactions :=
        [\<lparr>id = ascii ''1-a'', name = ascii ''Coffee'', amount = Num 50000, type = ChiTieu,
          createdAt = ascii ''Invalid Date''\<rparr>],
        filterMode := FilterMonth, filterMonth := []\<rparr>)
     = [\<lparr>id = ascii ''1-a'', name = ascii ''Coffee'', amount = Num 50000, type = ChiTieu,
          createdAt = ascii ''Invalid Date''\<rparr>]"
    by (simp add: filteredTransactions_def filterByMonth_def)
  from p f show ?thesis by (intro conjI)
qed

subsection \<open>The range filter without bounds\<close>

text \<open>
  C7, as the code has it. In range mode with no start and no end date the filter keeps
  exactly the records whose \<^verbatim>\<open>createdAt\<close> parses to a time value, in their order; the
  result is the whole collection when every record has one.
\<close>

theorem range_without_bounds:
  assumes "filterMode s = FilterRange" and "filterStart s = []" and "filterEnd s = []"
  shows "filteredTransactions tza s = filter (hasTimestamp tza) (transactions s)
         \<and> (list_all (hasTimestamp tza) (transactions s)
            \<longrightarrow> filteredTransactions tza s = transactions s)"
proof -
  have "filteredTransactions tza s = filter (inWindow tza NegInfinity PosInfinity) (transactions s)"
    using assms by (simp add: filteredTransactions_def filterByRange_def)
  also have "\<dots> = filter (hasTimestamp tza) (transactions s)"
    using inWindow_unbounded [of tza] by (intro filter_cong) simp_all
  finally have a: "filteredTransactions tza s = filter (hasTimestamp tza) (transactions s)" .
  then show ?thesis by (simp add: list_all_iff)
qed

theorem range_without_bounds_witness:
  "filterMode (initialState\<lparr>transactions :=
       [\<lparr>id = ascii ''1-a'', name = ascii ''Coffee'', amount = Num 50000, type = ChiTieu,
         createdAt = ascii ''2026-03-01T00:00:00.001Z''\<rparr>], filterMode := FilterRange\<rparr>) = FilterRange
   \<and> filterStart (initialState\<lparr>transactions :=
       [\<lparr>id = ascii ''1-a'', name = ascii ''Coffee'', amount = Num 50000, type = ChiTieu,
         createdAt = ascii ''2026-03-01T00:00:00.001Z''\<rparr>], filterMode := FilterRange\<rparr>) = []
   \<and> filterEnd (initialState\<lparr>transactions :=
       [\<lparr>id = ascii ''1-a'', name = ascii ''Coffee'', amount = Num 50000, type = ChiTieu,
         createdAt = ascii ''2026-03-01T00:00:00.001Z''\<rparr>], filterMode := FilterRange\<rparr>) = []
   \<and> list_all (hasTimestamp 25200000)
       [\<lparr>id = ascii ''1-a'', name = ascii ''Coffee'', amount = Num 50000, type = ChiTieu,
         createdAt = ascii ''2026-03-01T00:00:00.001Z''\<rparr>]
   \<and> filteredTransactions 25200000 (initialState\<lparr>transactions :=
       [\<lparr>id = ascii ''1-a'', name = ascii ''Coffee'', amount = Num 50000, type = ChiTieu,
         createdAt = ascii ''2026-03-01T00:00:00.001Z''\<rparr>], filterMode := FilterRange\<rparr>)
     = [\<lparr>id = ascii ''1-a'', name = ascii ''Coffee'', amount = Num 50000, type = ChiTieu,
         createdAt = ascii ''2026-03-01T00:00:00.001Z''\<rparr>]"
proof -
  let ?t = "\<lparr>id = ascii ''1-a'', name = ascii ''Coffee'', amount = Num 50000, type = ChiTieu,
             createdAt = ascii ''2026-03-01T00:00:00.001Z''\<rparr>"
  let ?s = "initialState\<lparr>transactions := [?t], filterMode := FilterRange\<rparr>"
  have h1: "filterMode ?s = FilterRange" by simp
  have h2: "filterStart ?s = []" by (simp add: initialState_def)
  have h3: "filterEnd ?s = []" by (simp add: initialState_def)
  have p: "Date_parse 25200000 (ascii ''2026-03-01T00:00:00.001Z'') = Num 1772323200001"
    by code_simp
  have h4: "list_all (hasTimestamp 25200000) (transactions ?s)"
    by (simp add: hasTimestamp_def p)
  have tr: "transactions ?s = [?t]" by simp
  from range_without_bounds [OF h1 h2 h3, of 25200000, THEN conjunct2] h4
  have c: "filteredTransactions 25200000 ?s = transactions ?s" by (rule mp)
  from h1 h2 h3 h4 c show ?thesis unfolding tr by (intro conjI)
qed

text \<open>
  The claim as stated fails on a collection that holds a record without a valid time
  stamp: the range filter without bounds drops it.
\<close>

theorem range_without_bounds_counterexample:
  "filteredTransactions 25200000 (initialState\<lparr>transactions :=
       [\<lparr>id = ascii ''1-a'', name = ascii ''Coffee'', amount = Num 50000, type = ChiTieu,
         createdAt = ascii ''Invalid Date''\<rparr>], filterMode := FilterRange\<rparr>)
   \<noteq> transactions (initialState\<lparr>transactions :=
       [\<lparr>id = ascii ''1-a'', name = ascii ''Coffee'', amount = Num 50000, type = ChiTieu,
         createdAt = ascii ''Invalid Date''\<rparr>], filterMode := FilterRange\<rparr>)"
proof -
  have p: "Date_parse 25200000 (ascii ''Invalid Date'') = NaN" by code_simp
  show ?thesis
    by (simp add: filteredTransactions_def filterByRange_def initialState_def inWindow_def
        getTime_def p js_ge_def)
qed

subsection \<open>The month filter\<close>

lemma inWindow_Num:
  "inWindow tza (Num lo) (Num hi) t = createdWithin tza lo hi t"
  by (cases "Date_parse tza (createdAt t)")
     (simp_all add: inWindow_def createdWithin_def getTime_def js_ge_def)

lemma month_start_date:
  "\<not> (0 \<le> y \<and> y \<le> 99) \<Longrightarrow>
   newDate tza (Num y) (Num (m - 1)) (Num 1) 0 0 0 0 = TimeClip (monthFirstInstant tza y m)"
  by (auto simp: monthFirstInstant_def dayFirstInstant_def UTC_def MakeDate_def MakeTime_def)

text \<open>Day 0 of the following month is the last day of the month.\<close>

lemma MakeDay_day_zero: "MakeDay y m 0 = MakeDay y m 1 - 1"
  by (simp add: MakeDay_def Let_def)

lemma month_end_date:
  "\<not> (0 \<le> y \<and> y \<le> 99) \<Longrightarrow>
   newDate tza (Num y) (Num m) (Num 0) 23 59 59 999 = TimeClip (monthLastInstant tza y m)"
  by (auto simp: monthLastInstant_def monthFirstInstant_def dayFirstInstant_def UTC_def
      MakeDate_def MakeTime_def MakeDay_day_zero msPerDay_def algebra_simps)

text \<open>
  C1, as the code has it. In month mode, when the year or the month is absent or invalid
  the list is returned unfiltered. Otherwise, for a year from 100 on and a month whose
  first and last instant are time values a \<^verbatim>\<open>Date\<close> can hold, exactly the records
  are kept whose \<^verbatim>\<open>createdAt\<close> instant lies between the first instant of the month and
  its last instant (the end of day 0 of the following month), both ends included.
\<close>

theorem month_filter_window:
  assumes "filterMode s = FilterMonth"
  shows "(monthSpec (filterMonth s) = None \<longrightarrow> filteredTransactions tza s = transactions s)
         \<and> (monthSpec (filterMonth s) = Some (y, m) \<and> 100 \<le> y
              \<and> abs (monthFirstInstant tza y m) \<le> maxTime
              \<and> abs (monthLastInstant tza y m) \<le> maxTime
            \<longrightarrow> filteredTransactions tza s =
                  filter (createdWithin tza (monthFirstInstant tza y m) (monthLastInstant tza y m))
                    (transactions s))"
proof -
  have f: "filteredTransactions tza s = filterByMonth tza (filterMonth s) (transactions s)"
    using assms by (simp add: filteredTransactions_def)
  have a: "filteredTransactions tza s = transactions s" if "monthSpec (filterMonth s) = None"
    using that by (simp add: f filterByMonth_monthSpec)
  have b: "filteredTransactions tza s =
           filter (createdWithin tza (monthFirstInstant tza y m) (monthLastInstant tza y m))
             (transactions s)"
    if v: "monthSpec (filterMonth s) = Some (y, m)" and y: "100 \<le> y"
      and lo: "abs (monthFirstInstant tza y m) \<le> maxTime"
      and hi: "abs (monthLastInstant tza y m) \<le> maxTime"
  proof -
    from y have ny: "\<not> (0 \<le> y \<and> y \<le> 99)" by simp
    have "filteredTransactions tza s =
          filter (inWindow tza (Num (monthFirstInstant tza y m)) (Num (monthLastInstant tza y m)))
            (transactions s)"
      using lo hi
      by (simp add: f filterByMonth_monthSpec v month_start_date [OF ny] month_end_date [OF ny]
          TimeClip_def del: newDate.simps)
    also have "\<dots> = filter (createdWithin tza (monthFirstInstant tza y m) (monthLastInstant tza y m))
                       (transactions s)"
      by (intro filter_cong) (simp_all add: inWindow_Num)
    finally show ?thesis .
  qed
  from a b show ?thesis by blast
qed

theorem month_filter_window_witness:
  "filterMode (initialState\<lparr>transactions :=
        [\<lparr>id = ascii ''1-a'', name = ascii ''Coffee'', amount = Num 50000, type = ChiTieu,
          createdAt = ascii ''2026-01-31T16:59:59.999Z''\<rparr>,
         \<lparr>id = ascii ''2-b'', name = ascii ''Salary'', amount = Num 2000000, type = ThuNhap,
          createdAt = ascii ''2026-01-31T17:00:00.000Z''\<rparr>],
        filterMode := FilterMonth, filterMonth := ascii ''2026-01''\<rparr>) = FilterMonth
   \<and> monthSpec (ascii ''2026-01'') = Some (2026, 1)
   \<and> (100::int) \<le> 2026
   \<and> abs (monthFirstInstant 25200000 2026 1) \<le> maxTime
   \<and> abs (monthLastInstant 25200000 2026 1) \<le> maxTime
   \<and> filteredTransactions 25200000 (initialState\<lparr>transactions :=
        [\<lparr>id = ascii ''1-a'', name = ascii ''Coffee'', amount = Num 50000, type = ChiTieu,
          createdAt = ascii ''2026-01-31T16:59:59.999Z''\<rparr>,
         \<lparr>id = ascii ''2-b'', name = ascii ''Salary'', amount = Num 2000000, type = ThuNhap,
          createdAt = ascii ''2026-01-31T17:00:00.000Z''\<rparr>],
        filterMode := FilterMonth, filterMonth := ascii ''2026-01''\<rparr>)
      = [\<lparr>id = ascii ''1-a'', name = ascii ''Coffee'', amount = Num 50000, type = ChiTieu,
          createdAt = ascii ''2026-01-31T16:59:59.999Z''\<rparr>]"
proof -
  let ?a = "\<lparr>id = ascii ''1-a'', name = ascii ''Coffee'', amount = Num 50000, type = ChiTieu,
             createdAt = ascii ''2026-01-31T16:59:59.999Z''\<rparr>"
  let ?b = "\<lparr>id = ascii ''2-b'', name = ascii ''Salary'', amount = Num 2000000, type = ThuNhap,
             createdAt = ascii ''2026-01-31T17:00:00.000Z''\<rparr>"
  let ?s = "initialState\<lparr>transactions := [?a, ?b],
              filterMode := FilterMonth, filterMonth := ascii ''2026-01''\<rparr>"
  have h1: "filterMode ?s = FilterMonth" by simp
  have v: "monthSpec (ascii ''2026-01'') = Some (2026, 1)" by code_simp
  have lo: "monthFirstInstant 25200000 2026 1 = 1767200400000" by code_simp
  have hi: "monthLastInstant 25200000 2026 1 = 1769878799999" by code_simp
  have pa: "Date_parse 25200000 (ascii ''2026-01-31T16:59:59.999Z'') = Num 1769878799999"
    by code_simp
  have pb: "Date_parse 25200000 (ascii ''2026-01-31T17:00:00.000Z'') = Num 1769878800000"
    by code_simp
  have h2: "monthSpec (filterMonth ?s) = Some (2026, 1) \<and> (100::int) \<le> 2026
            \<and> abs (monthFirstInstant 25200000 2026 1) \<le> maxTime
            \<and> abs (monthLastInstant 25200000 2026 1) \<le> maxTime"
    by (simp add: v lo hi maxTime_def)
  from month_filter_window [OF h1, where y = 2026 and m = 1 and tza = 25200000, THEN conjunct2] h2
  have "filteredTransactions 25200000 ?s =
        filter (createdWithin 25200000 (monthFirstInstant 25200000 2026 1)
                  (monthLastInstant 25200000 2026 1)) (transactions ?s)"
    by (rule mp)
  also have "\<dots> = [?a]" by (simp add: createdWithin_def lo hi pa pb)
  finally have c: "filteredTransactions 25200000 ?s = [?a]" .
  from h1 v c show ?thesis by (simp add: lo hi maxTime_def)
qed

text \<open>
  The claim as stated fails for a year below 100: \<^verbatim>\<open>new Date(50, 0, 1)\<close> is the first of
  January 1950, so the filter for month \<^verbatim>\<open>0050-01\<close> keeps a record of January 1950, which
  is not in the first month of the year 50.
\<close>

theorem month_filter_counterexample:
  "monthSpec (ascii ''0050-01'') = Some (50, 1)
   \<and> filteredTransactions 25200000 (initialState\<lparr>transactions :=
        [\<lparr>id = ascii ''1-a'', name = ascii ''Coffee'', amount = Num 50000, type = ChiTieu,
          createdAt = ascii ''1950-01-15T05:00:00.000Z''\<rparr>],
        filterMode := FilterMonth, filterMonth := ascii ''0050-01''\<rparr>)
      = [\<lparr>id = ascii ''1-a'', name = ascii ''Coffee'', amount = Num 50000, type = ChiTieu,
          createdAt = ascii ''1950-01-15T05:00:00.000Z''\<rparr>]
   \<and> \<not> createdWithin 25200000 (monthFirstInstant 25200000 50 1) (monthLastInstant 25200000 50 1)
        \<lparr>id = ascii ''1-a'', name = ascii ''Coffee'', amount = Num 50000, type = ChiTieu,
         createdAt = ascii ''1950-01-15T05:00:00.000Z''\<rparr>"
proof -
  have v: "monthSpec (ascii ''0050-01'') = Some (50, 1)" by code_simp
  have m: "map parseInt (splitOn 0x2D (ascii ''0050-01'')) = [Num 50, Num 1]" by code_simp
  have ne: "ascii ''0050-01'' \<noteq> []" by (simp add: ascii_def)
  have s: "newDate 25200000 (Num 50) (Num 0) (Num 1) 0 0 0 0 = Num (- 631177200000)" by code_simp
  have e: "newDate 25200000 (Num 50) (Num 1) (Num 0) 23 59 59 999 = Num (- 628498800001)" by code_simp
  have p: "Date_parse 25200000 (ascii ''1950-01-15T05:00:00.000Z'') = Num (- 629924400000)"
    by code_simp
  have lo: "monthFirstInstant 25200000 50 1 = - 60589321200000" by code_simp
  have hi: "monthLastInstant 25200000 50 1 = - 60586642800001" by code_simp
  have f: "filteredTransactions 25200000 (initialState\<lparr>transactions :=
        [\<lparr>id = ascii ''1-a'', name = ascii ''Coffee'', amount = Num 50000, type = ChiTieu,
          createdAt = ascii ''1950-01-15T05:00:00.000Z''\<rparr>],
        filterMode := FilterMonth, filterMonth := ascii ''0050-01''\<rparr>)
      = [\<lparr>id = ascii ''1-a'', name = ascii ''Coffee'', amount = Num 50000, type = ChiTieu,
          createdAt = ascii ''1950-01-15T05:00:00.000Z''\<rparr>]"
    by (simp add: filteredTransactions_def filterByMonth_def m ne s e inWindow_def getTime_def
        js_ge_def p del: newDate.simps)
  have g: "\<not> createdWithin 25200000 (monthFirstInstant 25200000 50 1) (monthLastInstant 25200000 50 1)
        \<lparr>id = ascii ''1-a'', name = ascii ''Coffee'', amount = Num 50000, type = ChiTieu,
         createdAt = ascii ''1950-01-15T05:00:00.000Z''\<rparr>"
    by (simp add: createdWithin_def p lo hi)
  from v f g show ?thesis by (intro conjI)
qed

subsection \<open>The range filter\<close>

text \<open>
  C2 at a failing input. The local zone is five hours west of UTC, the start date is
  \<^verbatim>\<open>2026-03-10\<close> and there is no end date. \<^verbatim>\<open>new Date("2026-03-10")\<close> is midnight UTC,
  which is 19:00 of the 9th in local time, so \<^verbatim>\<open>startOfDay\<close> gives the first instant of
  the 9th. A record created at 23:59:59.999 of the 9th, local time, is kept, although it
  lies before the first instant of the start day.
\<close>

theorem range_start_west_of_utc:
  "startOfDay (- 18000000) (Date_parse (- 18000000) (ascii ''2026-03-10''))
     = Num (dayFirstInstant (- 18000000) 2026 3 9)
   \<and> filteredTransactions (- 18000000) (initialState\<lparr>transactions :=
        [\<lparr>id = ascii ''1-a'', name = ascii ''Coffee'', amount = Num 50000, type = ChiTieu,
          createdAt = ascii ''2026-03-10T04:59:59.999Z''\<rparr>],
        filterMode := FilterRange, filterStart := ascii ''2026-03-10''\<rparr>)
      = [\<lparr>id = ascii ''1-a'', name = ascii ''Coffee'', amount = Num 50000, type = ChiTieu,
          createdAt = ascii ''2026-03-10T04:59:59.999Z''\<rparr>]
   \<and> Date_parse (- 18000000) (ascii ''2026-03-10T04:59:59.999Z'')
     = Num (dayLastInstant (- 18000000) 2026 3 9)
   \<and> dayLastInstant (- 18000000) 2026 3 9 < dayFirstInstant (- 18000000) 2026 3 10"
proof -
  have d: "Date_parse (- 18000000) (ascii ''2026-03-10'') = Num 1773100800000" by code_simp
  have s: "startOfDay (- 18000000) (Num 1773100800000) = Num 1773032400000" by code_simp
  have f9: "dayFirstInstant (- 18000000) 2026 3 9 = 1773032400000" by code_simp
  have l9: "dayLastInstant (- 18000000) 2026 3 9 = 1773118799999" by code_simp
  have f10: "dayFirstInstant (- 18000000) 2026 3 10 = 1773118800000" by code_simp
  have p: "Date_parse (- 18000000) (ascii ''2026-03-10T04:59:59.999Z'') = Num 1773118799999"
    by code_simp
  have ne: "ascii ''2026-03-10'' \<noteq> []" by (simp add: ascii_def)
  have a: "startOfDay (- 18000000) (Date_parse (- 18000000) (ascii ''2026-03-10''))
           = Num (dayFirstInstant (- 18000000) 2026 3 9)"
    by (simp only: d s f9)
  have b: "filteredTransactions (- 18000000) (initialState\<lparr>transactions :=
        [\<lparr>id = ascii ''1-a'', name = ascii ''Coffee'', amount = Num 50000, type = ChiTieu,
          createdAt = ascii ''2026-03-10T04:59:59.999Z''\<rparr>],
        filterMode := FilterRange, filterStart := ascii ''2026-03-10''\<rparr>)
      = [\<lparr>id = ascii ''1-a'', name = ascii ''Coffee'', amount = Num 50000, type = ChiTieu,
          createdAt = ascii ''2026-03-10T04:59:59.999Z''\<rparr>]"
    by (simp add: filteredTransactions_def filterByRange_def initialState_def ne d s
        inWindow_def getTime_def js_ge_def p)
  have c: "Date_parse (- 18000000) (ascii ''2026-03-10T04:59:59.999Z'')
           = Num (dayLastInstant (- 18000000) 2026 3 9)"
    by (simp only: p l9)
  have e: "dayLastInstant (- 18000000) 2026 3 9 < dayFirstInstant (- 18000000) 2026 3 10"
    by (simp add: l9 f10)
  from a b c e show ?thesis by (intro conjI)
qed

subsection \<open>Strings in JSON text\<close>

lemma small_int_cases:
  "0 \<le> k \<Longrightarrow> k < 16 \<Longrightarrow>
   k = 0 \<or> k = 1 \<or> k = 2 \<or> k = 3 \<or> k = 4 \<or> k = 5 \<or> k = 6 \<or> k = 7 \<or> k = 8 \<or> k = 9
   \<or> k = 10 \<or> k = 11 \<or> k = 12 \<or> k = 13 \<or> k = 14 \<or> k = (15::int)"
  by arith

lemma hexDigit_hexChar: "0 \<le> k \<Longrightarrow> k < 16 \<Longrightarrow> hexDigit (hexChar k) = Some k"
proof -
  assume "0 \<le> k" and "k < 16"
  then have "k = 0 \<or> k = 1 \<or> k = 2 \<or> k = 3 \<or> k = 4 \<or> k = 5 \<or> k = 6 \<or> k = 7 \<or> k = 8 \<or> k = 9
     \<or> k = 10 \<or> k = 11 \<or> k = 12 \<or> k = 13 \<or> k = 14 \<or> k = 15" by (rule small_int_cases)
  then show ?thesis
    by (elim disjE) (simp_all add: hexDigit_def hexChar_def isDigit_def)
qed

lemma hex_digits_sum:
  "x = q1 * 16 + d \<Longrightarrow> q1 = q2 * 16 + c \<Longrightarrow> q2 = q3 * 16 + b \<Longrightarrow>
   ((q3 * 16 + b) * 16 + c) * 16 + d = (x::int)"
  by simp

lemma hex_reassemble:
  "((x div 4096 * 16 + x div 256 mod 16) * 16 + x div 16 mod 16) * 16 + x mod 16 = (x::int)"
proof (rule hex_digits_sum)
  show "x = x div 16 * 16 + x mod 16" by simp
  have "x div 256 = x div 16 div 16" by (simp add: zdiv_zmult2_eq)
  then show "x div 16 = x div 256 * 16 + x div 16 mod 16" by simp
  have "x div 4096 = x div 256 div 16" by (simp add: zdiv_zmult2_eq)
  then show "x div 256 = x div 4096 * 16 + x div 256 mod 16" by simp
qed

lemma uint16_bound: "uint (c :: 16 word) < 65536"
  using uint_bounded [of c] by simp

lemma hex4_unicodeEscape:
  "hex4 (hexChar (uint c div 4096)) (hexChar (uint c div 256 mod 16))
        (hexChar (uint c div 16 mod 16)) (hexChar (uint c mod 16)) = Some (c :: 16 word)"
proof -
  have b: "0 \<le> uint c" "uint c < 65536" using uint16_bound [of c] by simp_all
  have d1: "0 \<le> uint c div 4096" "uint c div 4096 < 16"
    using b by arith+
  have d2: "0 \<le> uint c div 256 mod 16" "uint c div 256 mod 16 < 16" by simp_all
  have d3: "0 \<le> uint c div 16 mod 16" "uint c div 16 mod 16 < 16" by simp_all
  have d4: "0 \<le> uint c mod 16" "uint c mod 16 < 16" by simp_all
  let ?e = "((uint c div 4096 * 16 + uint c div 256 mod 16) * 16 + uint c div 16 mod 16) * 16
            + uint c mod 16"
  have "hex4 (hexChar (uint c div 4096)) (hexChar (uint c div 256 mod 16))
          (hexChar (uint c div 16 mod 16)) (hexChar (uint c mod 16)) = Some (word_of_int ?e)"
    unfolding hex4_def
    by (simp only: hexDigit_hexChar [OF d1] hexDigit_hexChar [OF d2] hexDigit_hexChar [OF d3]
        hexDigit_hexChar [OF d4] Option.bind.simps)
  also have "?e = uint c" by (rule hex_reassemble)
  finally show ?thesis by (simp only: word_of_int_uint)
qed

lemma parseChars_unicodeEscape:
  "parseChars (unicodeEscape c @ rest) = consFst c (parseChars rest)"
  by (simp add: unicodeEscape_def hex4_unicodeEscape)

lemma parseChars_plain:
  "c \<noteq> 0x22 \<Longrightarrow> c \<noteq> 0x5C \<Longrightarrow> \<not> c < 0x20 \<Longrightarrow>
   parseChars (c # rest) = consFst c (parseChars rest)"
  by simp

lemma parseChars_escapeUnit:
  "parseChars (escapeUnit c @ rest) = consFst c (parseChars rest)"
proof -
  consider "c = 0x08" | "c = 0x09" | "c = 0x0A" | "c = 0x0C" | "c = 0x0D" | "c = 0x22" | "c = 0x5C"
    | "c \<noteq> 0x08" "c \<noteq> 0x09" "c \<noteq> 0x0A" "c \<noteq> 0x0C" "c \<noteq> 0x0D" "c \<noteq> 0x22" "c \<noteq> 0x5C"
      "c < 0x20 \<or> isHighSurrogate c \<or> isLowSurrogate c"
    | "c \<noteq> 0x08" "c \<noteq> 0x09" "c \<noteq> 0x0A" "c \<noteq> 0x0C" "c \<noteq> 0x0D" "c \<noteq> 0x22" "c \<noteq> 0x5C"
      "\<not> (c < 0x20 \<or> isHighSurrogate c \<or> isLowSurrogate c)"
    by blast
  then show ?thesis
  proof cases
    case 8
    then have "escapeUnit c = unicodeEscape c" by (simp add: escapeUnit_def)
    then show ?thesis by (simp only: parseChars_unicodeEscape)
  next
    case 9
    then have "escapeUnit c = [c]" by (simp add: escapeUnit_def)
    with 9 show ?thesis by simp
  qed (simp_all add: escapeUnit_def unescape_def)
qed

lemma surrogate_plain:
  "isHighSurrogate c \<or> isLowSurrogate c \<Longrightarrow> c \<noteq> 0x22 \<and> c \<noteq> 0x5C \<and> \<not> c < 0x20"
  by (auto simp: isHighSurrogate_def isLowSurrogate_def word_le_nat_alt word_less_nat_alt)

lemma parseChars_escapeChars:
  "parseChars (escapeChars s @ 0x22 # rest) = Some (s, rest)"
proof (induction s rule: escapeChars.induct)
  case 1
  show ?case by simp
next
  case (2 c)
  show ?case by (simp add: parseChars_escapeUnit consFst_def del: parseChars.simps) simp
next
  case (3 c d r)
  show ?case
  proof (cases "isHighSurrogate c \<and> isLowSurrogate d")
    case True
    then have pc: "c \<noteq> 0x22 \<and> c \<noteq> 0x5C \<and> \<not> c < 0x20" and pd: "d \<noteq> 0x22 \<and> d \<noteq> 0x5C \<and> \<not> d < 0x20"
      using surrogate_plain by blast+
    from True 3 have ih: "parseChars (escapeChars r @ 0x22 # rest) = Some (r, rest)" by simp
    have "parseChars (escapeChars (c # d # r) @ 0x22 # rest)
          = consFst c (consFst d (parseChars (escapeChars r @ 0x22 # rest)))"
      using True pc pd by simp
    with ih show ?thesis by (simp add: consFst_def)
  next
    case False
    with 3 have ih: "parseChars (escapeChars (d # r) @ 0x22 # rest) = Some (d # r, rest)" by simp
    from False have e: "escapeChars (c # d # r) = escapeUnit c @ escapeChars (d # r)" by auto
    have "parseChars (escapeChars (c # d # r) @ 0x22 # rest)
          = consFst c (parseChars (escapeChars (d # r) @ 0x22 # rest))"
      by (simp only: e append_assoc parseChars_escapeUnit)
    with ih show ?thesis by (simp add: consFst_def)
  qed
qed

subsection \<open>Numbers in JSON text\<close>

lemma natToString_zero: "natToString 0 = [0x30]"
  by (subst natToString.simps) simp

lemma natToString_no_leading_zero: "n \<noteq> 0 \<Longrightarrow> hd (natToString n) \<noteq> 0x30"
proof (induction n rule: natToString.induct)
  case (1 n)
  show ?case
  proof (cases "n < 10")
    case True
    from small_nat_cases [OF True] "1.prems" show ?thesis
      by (elim disjE) (simp_all add: natToString.simps)
  next
    case False
    then have "n div 10 \<noteq> 0" by simp
    with 1 False have "hd (natToString (n div 10)) \<noteq> 0x30" by simp
    moreover have "natToString n = natToString (n div 10) @ [of_nat (48 + n mod 10)]"
      using False by (subst natToString.simps) simp
    ultimately show ?thesis using natToString_nonempty [of "n div 10"] by simp
  qed
qed

lemma natToString_leading:
  "\<not> (hd (natToString n) = 0x30 \<and> 1 < length (natToString n))"
  by (cases "n = 0") (simp_all add: natToString_zero natToString_no_leading_zero)

lemma takeWhile_digits:
  "list_all isDigit ds \<Longrightarrow> \<not> isDigit c \<Longrightarrow> takeWhile isDigit (ds @ c # r) = ds"
  by (induction ds) simp_all

lemma dropWhile_digits:
  "list_all isDigit ds \<Longrightarrow> \<not> isDigit c \<Longrightarrow> dropWhile isDigit (ds @ c # r) = c # r"
  by (induction ds) simp_all

lemma digitsVal_Nil: "digitsVal [] = 0"
  by (simp add: digitsVal_def)

lemma parseNumber_digits:
  assumes "\<not> isDigit c" and "c \<noteq> 0x2E" and "c \<noteq> 0x65" and "c \<noteq> 0x45"
  shows "parseNumber (natToString n @ c # r) = Some (JNumber (int n) 0, c # r)"
proof -
  have h: "hd (natToString n @ c # r) \<noteq> 0x2D" by (rule natToString_hd)
  have ne: "natToString n @ c # r \<noteq> []" by simp
  note tw = takeWhile_digits [OF natToString_digits assms(1), of n r]
  note dw = dropWhile_digits [OF natToString_digits assms(1), of n r]
  show ?thesis
    unfolding parseNumber_def Let_def startsWith_def
    using h natToString_leading [of n] natToString_nonempty [of n] assms
    by (simp add: tw dw digitsVal_natToString digitsVal_Nil)
qed

lemma parseNumber_neg_digits:
  assumes "\<not> isDigit c" and "c \<noteq> 0x2E" and "c \<noteq> 0x65" and "c \<noteq> 0x45"
  shows "parseNumber (0x2D # natToString n @ c # r) = Some (JNumber (- int n) 0, c # r)"
proof -
  note tw = takeWhile_digits [OF natToString_digits assms(1), of n r]
  note dw = dropWhile_digits [OF natToString_digits assms(1), of n r]
  show ?thesis
    unfolding parseNumber_def Let_def startsWith_def
    using natToString_leading [of n] natToString_nonempty [of n] assms
    by (simp add: tw dw digitsVal_natToString digitsVal_Nil)
qed

lemma firstSome_Some: "firstSome f xs = Some y \<Longrightarrow> \<exists>x \<in> set xs. f x = Some y"
  by (induction xs) (auto split: option.splits)

lemma foldl_nearer_in: "foldl (nearer x) c r \<in> set (c # r)"
proof (induction r arbitrary: c)
  case Nil
  show ?case by simp
next
  case (Cons d r)
  have "nearer x c d = c \<or> nearer x c d = d" by (simp add: nearer_def Let_def)
  with Cons [of "nearer x c d"] show ?case by auto
qed

lemma nearest_in: "nearest x cs = Some c \<Longrightarrow> c \<in> set cs"
  using foldl_nearer_in [of x] by (cases cs) (auto simp: nearest_def)

lemma candidates_reads:
  "(s, e) \<in> set (candidates x k n) \<Longrightarrow> 1 \<le> s \<and> toDouble (s * 10 ^ e) = Num x"
proof -
  assume a: "(s, e) \<in> set (candidates x k n)"
  then have "10 ^ (k - 1) \<le> s" and r: "toDouble (s * 10 ^ e) = Num x"
    by (auto simp: candidates_def split: if_splits)
  moreover have "(1::int) \<le> 10 ^ (k - 1)" by simp
  ultimately show ?thesis by linarith
qed

lemma shortest_reads:
  assumes "isDouble x" and "0 < x" and "shortest x = (s, e)"
  shows "1 \<le> s \<and> toDouble (s * 10 ^ e) = Num x"
proof (cases "firstSome (\<lambda>k. nearest x (candidates x k (digitCount x)
                 @ candidates x k (Suc (digitCount x)))) [1..<Suc (digitCount x)]")
  case None
  with assms(3) have "s = x" "e = 0" by (simp_all add: shortest_def)
  with assms(1,2) show ?thesis by (simp add: isDouble_def)
next
  case (Some c)
  with assms(3) have c: "c = (s, e)" by (simp add: shortest_def)
  from firstSome_Some [OF Some] obtain k where
    "nearest x (candidates x k (digitCount x) @ candidates x k (Suc (digitCount x))) = Some c"
    by blast
  from nearest_in [OF this] c
  have "(s, e) \<in> set (candidates x k (digitCount x))
        \<or> (s, e) \<in> set (candidates x k (Suc (digitCount x)))" by simp
  then show ?thesis using candidates_reads by blast
qed

lemma shortest_pos:
  assumes "0 < x" and "shortest x = (s, e)"
  shows "1 \<le> s"
proof (cases "firstSome (\<lambda>k. nearest x (candidates x k (digitCount x)
                 @ candidates x k (Suc (digitCount x)))) [1..<Suc (digitCount x)]")
  case None
  with assms(2) have "s = x" by (simp add: shortest_def)
  with assms(1) show ?thesis by simp
next
  case (Some c)
  with assms(2) have c: "c = (s, e)" by (simp add: shortest_def)
  from firstSome_Some [OF Some] obtain k where
    "nearest x (candidates x k (digitCount x) @ candidates x k (Suc (digitCount x))) = Some c"
    by blast
  from nearest_in [OF this] c
  have "(s, e) \<in> set (candidates x k (digitCount x))
        \<or> (s, e) \<in> set (candidates x k (Suc (digitCount x)))" by simp
  then show ?thesis using candidates_reads by blast
qed

lemma natToString_length_bounds:
  "0 < n \<Longrightarrow> 10 ^ (length (natToString n) - 1) \<le> n \<and> n < 10 ^ length (natToString n)"
proof (induction n rule: natToString.induct)
  case (1 n)
  show ?case
  proof (cases "n < 10")
    case True
    with "1.prems" show ?thesis by (subst natToString.simps, subst natToString.simps) simp
  next
    case False
    define L where "L = length (natToString (n div 10))"
    from False have p: "0 < n div 10" by simp
    with 1 False have ih: "10 ^ (L - 1) \<le> n div 10" "n div 10 < 10 ^ L" by (simp_all add: L_def)
    have L: "0 < L" using natToString_nonempty [of "n div 10"] by (simp add: L_def)
    have len: "length (natToString n) = Suc L"
      using False by (subst natToString.simps) (simp add: L_def)
    from L have "(10::nat) ^ L = 10 * 10 ^ (L - 1)" by (cases L) simp_all
    with ih(1) have lo: "10 ^ L \<le> n" by simp
    from ih(2) have hi: "n < 10 * 10 ^ L" by simp
    from lo hi show ?thesis by (simp add: len)
  qed
qed

lemma firstSome_None: "firstSome f xs = None \<Longrightarrow> x \<in> set xs \<Longrightarrow> f x = None"
  by (induction xs) (auto split: option.splits)

lemma nearest_None: "nearest x cs = None \<Longrightarrow> cs = []"
  by (cases cs) (simp_all add: nearest_def)

text \<open>For a double, the search finds digits: all digits of the number are a candidate.\<close>

lemma shortest_found:
  assumes d: "isDouble x" and p: "0 < x"
  shows "firstSome (\<lambda>k. nearest x (candidates x k (digitCount x)
            @ candidates x k (Suc (digitCount x)))) [1..<Suc (digitCount x)] \<noteq> None"
proof
  define D where "D = digitCount x"
  assume "firstSome (\<lambda>k. nearest x (candidates x k (digitCount x)
            @ candidates x k (Suc (digitCount x)))) [1..<Suc (digitCount x)] = None"
  then have n: "firstSome (\<lambda>k. nearest x (candidates x k D @ candidates x k (Suc D))) [1..<Suc D] = None"
    by (simp add: D_def)
  from p have pn: "0 < nat x" by simp
  from natToString_length_bounds [OF pn]
  have lo: "10 ^ (D - 1) \<le> nat x" and hi: "nat x < 10 ^ D" by (simp_all add: D_def digitCount_def)
  have D: "1 \<le> D" using natToString_nonempty [of "nat x"] by (cases "natToString (nat x)") (simp_all add: D_def digitCount_def)
  then have "D \<in> set [1..<Suc D]" by simp
  from firstSome_None [OF n this] have "nearest x (candidates x D D @ candidates x D (Suc D)) = None" .
  from nearest_None [OF this] have e: "candidates x D D = []" by simp
  from lo have lo': "(10::int) ^ (D - 1) \<le> x" using p by (metis int_nat_eq less_imp_le of_nat_le_iff of_nat_numeral of_nat_power)
  from hi have hi': "x < (10::int) ^ D" using p by (metis int_nat_eq less_imp_le of_nat_less_iff of_nat_numeral of_nat_power)
  from d have "toDouble (x * 10 ^ 0) = Num x" by (simp add: isDouble_def)
  with lo' hi' have "(x, 0) \<in> set (candidates x D D)" by (simp add: candidates_def)
  with e show False by simp
qed

lemma natToString_times_ten: "0 < n \<Longrightarrow> natToString (n * 10) = natToString n @ [0x30]"
  by (subst natToString.simps) simp

lemma natToString_shift: "0 < n \<Longrightarrow> natToString (n * 10 ^ e) = natToString n @ replicate e 0x30"
proof (induction e)
  case 0
  show ?case by simp
next
  case (Suc e)
  from Suc.prems have p: "0 < n * 10 ^ e" by simp
  have "n * 10 ^ Suc e = (n * 10 ^ e) * 10" by simp
  then have "natToString (n * 10 ^ Suc e) = natToString ((n * 10 ^ e) * 10)" by (rule arg_cong)
  also have "\<dots> = natToString (n * 10 ^ e) @ [0x30]" by (rule natToString_times_ten [OF p])
  also have "\<dots> = natToString n @ replicate e 0x30 @ [0x30]" using Suc by simp
  also have "\<dots> = natToString n @ replicate (Suc e) 0x30" by (simp add: replicate_append_same)
  finally show ?case .
qed

lemma not_digit_marks: "\<not> isDigit 0x2C" "\<not> isDigit 0x2E" "\<not> isDigit 0x65" "\<not> isDigit 0x2B"
  by (simp_all add: isDigit_def)

lemma digit_not_mark: "isDigit d \<Longrightarrow> d \<noteq> 0x2D \<and> d \<noteq> 0x2E \<and> d \<noteq> 0x65 \<and> d \<noteq> 0x45 \<and> d \<noteq> 0x2B"
  by (auto simp: isDigit_def)

lemma parseNumber_exponent:
  assumes d: "isDigit d" and fp: "list_all isDigit fp"
  shows "parseNumber (d # (if fp = [] then [] else 0x2E # fp) @ [0x65, 0x2B] @ natToString N @ 0x2C # r)
         = Some (JNumber (digitsVal (d # fp)) (int N - int (length fp)), 0x2C # r)"
proof -
  note m = digit_not_mark [OF d]
  note tw = takeWhile_digits [OF natToString_digits not_digit_marks(1), of N r]
  note dw = dropWhile_digits [OF natToString_digits not_digit_marks(1), of N r]
  show ?thesis
  proof (cases "fp = []")
    case True
    then show ?thesis
      unfolding parseNumber_def Let_def startsWith_def
      using m d natToString_nonempty [of N]
      by (simp add: tw dw digitsVal_natToString not_digit_marks)
  next
    case False
    note tf = takeWhile_digits [OF fp not_digit_marks(3), of "0x2B # natToString N @ 0x2C # r"]
    note df = dropWhile_digits [OF fp not_digit_marks(3), of "0x2B # natToString N @ 0x2C # r"]
    from False show ?thesis
      unfolding parseNumber_def Let_def startsWith_def
      using m d natToString_nonempty [of N]
      by (simp add: tw dw tf df digitsVal_natToString not_digit_marks)
  qed
qed

lemma parseNumber_neg_exponent:
  assumes d: "isDigit d" and fp: "list_all isDigit fp"
  shows "parseNumber (0x2D # d # (if fp = [] then [] else 0x2E # fp) @ [0x65, 0x2B] @ natToString N @ 0x2C # r)
         = Some (JNumber (- digitsVal (d # fp)) (int N - int (length fp)), 0x2C # r)"
proof -
  note m = digit_not_mark [OF d]
  note tw = takeWhile_digits [OF natToString_digits not_digit_marks(1), of N r]
  note dw = dropWhile_digits [OF natToString_digits not_digit_marks(1), of N r]
  show ?thesis
  proof (cases "fp = []")
    case True
    then show ?thesis
      unfolding parseNumber_def Let_def startsWith_def
      using m d natToString_nonempty [of N]
      by (simp add: tw dw digitsVal_natToString not_digit_marks)
  next
    case False
    note tf = takeWhile_digits [OF fp not_digit_marks(3), of "0x2B # natToString N @ 0x2C # r"]
    note df = dropWhile_digits [OF fp not_digit_marks(3), of "0x2B # natToString N @ 0x2C # r"]
    from False show ?thesis
      unfolding parseNumber_def Let_def startsWith_def
      using m d natToString_nonempty [of N]
      by (simp add: tw dw tf df digitsVal_natToString not_digit_marks)
  qed
qed

lemma numberToString_parts:
  assumes x: "x \<noteq> 0" and sh: "shortest \<bar>x\<bar> = (s, e)"
  shows "numberToString x =
           (if x < 0 then [0x2D] else [])
           @ (if length (natToString (nat s)) + e \<le> 21 then natToString (nat s) @ replicate e 0x30
              else hd (natToString (nat s))
                   # (if tl (natToString (nat s)) = [] then [] else 0x2E # tl (natToString (nat s)))
                   @ [0x65, 0x2B] @ natToString (length (natToString (nat s)) + e - 1))"
proof -
  have k: "length (natToString (nat s)) = Suc 0 \<longleftrightarrow> tl (natToString (nat s)) = []"
    using natToString_nonempty [of "nat s"] by (cases "natToString (nat s)") simp_all
  show ?thesis using x by (simp add: numberToString_def sh Let_def k)
qed

lemma numberLiteral_parts:
  assumes x: "x \<noteq> 0" and sh: "shortest \<bar>x\<bar> = (s, e)"
  shows "numberLiteral x =
           (if length (natToString (nat s)) + e \<le> 21
            then JNumber ((if x < 0 then - 1 else 1) * (s * 10 ^ e)) 0
            else JNumber ((if x < 0 then - 1 else 1) * s) (int e))"
  using x by (simp add: numberLiteral_def sh Let_def)

lemma parseNumber_numberToString:
  "parseNumber (numberToString x @ 0x2C # r) = Some (numberLiteral x, 0x2C # r)"
proof (cases "x = 0")
  case True
  have c: "\<not> isDigit 0x2C" "(0x2C :: 16 word) \<noteq> 0x2E" "(0x2C :: 16 word) \<noteq> 0x65"
    "(0x2C :: 16 word) \<noteq> 0x45"
    by (simp_all add: isDigit_def)
  from parseNumber_digits [OF c, of 0 r] True show ?thesis
    by (simp add: numberToString_def numberLiteral_def natToString_zero)
next
  case False
  obtain s e where sh: "shortest \<bar>x\<bar> = (s, e)" by (cases "shortest \<bar>x\<bar>")
  from False have "0 < \<bar>x\<bar>" by simp
  from shortest_pos [OF this sh] have s: "1 \<le> s" .
  define ds where "ds = natToString (nat s)"
  have dv: "digitsVal ds = s" using s by (simp add: ds_def digitsVal_natToString)
  have dd: "list_all isDigit ds" unfolding ds_def by (rule natToString_digits)
  note ts = numberToString_parts [OF False sh, folded ds_def]
  note nl = numberLiteral_parts [OF False sh, folded ds_def]
  have c: "\<not> isDigit 0x2C" "(0x2C :: 16 word) \<noteq> 0x2E" "(0x2C :: 16 word) \<noteq> 0x65"
    "(0x2C :: 16 word) \<noteq> 0x45"
    by (simp_all add: isDigit_def)
  show ?thesis
  proof (cases "length ds + e \<le> 21")
    case True
    from s have p: "0 < nat s" by simp
    have b: "ds @ replicate e 0x30 = natToString (nat s * 10 ^ e)"
      unfolding ds_def by (rule natToString_shift [OF p, symmetric])
    have v: "int (nat s * 10 ^ e) = s * 10 ^ e" using s by simp
    show ?thesis
    proof (cases "x < 0")
      case neg: True
      from parseNumber_neg_digits [OF c, of "nat s * 10 ^ e" r] show ?thesis
        unfolding ts nl using True neg s by (simp add: b)
    next
      case pos: False
      from parseNumber_digits [OF c, of "nat s * 10 ^ e" r] show ?thesis
        unfolding ts nl using True pos s by (simp add: b)
    qed
  next
    case False
    obtain d fp where ds: "ds = d # fp"
      using natToString_nonempty [of "nat s"] unfolding ds_def by (cases "natToString (nat s)") auto
    from dd ds have d: "isDigit d" and fp: "list_all isDigit fp" by simp_all
    have ex: "int (length ds + e - 1) - int (length fp) = int e" by (simp add: ds)
    show ?thesis
    proof (cases "x < 0")
      case neg: True
      from parseNumber_neg_exponent [OF d fp, of "length ds + e - 1" r] show ?thesis
        unfolding ts nl using False neg dv ex by (cases "fp = []") (simp_all add: ds)
    next
      case pos: False
      from parseNumber_exponent [OF d fp, of "length ds + e - 1" r] show ?thesis
        unfolding ts nl using False pos dv ex by (cases "fp = []") (simp_all add: ds)
    qed
  qed
qed

lemma numberToString_head:
  "\<exists>c cs. numberToString x = c # cs \<and> (isDigit c \<or> c = 0x2D)"
proof (cases "x = 0")
  case True
  then show ?thesis by (simp add: numberToString_def isDigit_def)
next
  case False
  obtain s e where sh: "shortest \<bar>x\<bar> = (s, e)" by (cases "shortest \<bar>x\<bar>")
  obtain d fp where ds: "natToString (nat s) = d # fp"
    using natToString_nonempty [of "nat s"] by (cases "natToString (nat s)") auto
  with natToString_digits [of "nat s"] have d: "isDigit d" by simp
  show ?thesis
    unfolding numberToString_parts [OF False sh] using d by (simp add: ds)
qed

lemma numberLiteral_reads:
  assumes "isDouble x"
  shows "\<exists>m e. numberLiteral x = JNumber m e \<and> numberToDouble m e = Some (Num x)"
proof (cases "x = 0")
  case True
  then show ?thesis by (simp add: numberLiteral_def numberToDouble_def toDouble_zero)
next
  case False
  obtain s e where sh: "shortest \<bar>x\<bar> = (s, e)" by (cases "shortest \<bar>x\<bar>")
  from False have p: "0 < \<bar>x\<bar>" by simp
  have "isDouble \<bar>x\<bar>" using assms isDouble_neg [of x] by (cases "x < 0") simp_all
  from shortest_reads [OF this p sh] have r: "toDouble (s * 10 ^ e) = Num \<bar>x\<bar>" by simp
  have r': "toDouble (- (s * 10 ^ e)) = Num (- \<bar>x\<bar>)" unfolding toDouble_neg r by simp
  note nl = numberLiteral_parts [OF False sh]
  show ?thesis
  proof (cases "x < 0")
    case True
    with r' show ?thesis unfolding nl by (simp add: numberToDouble_def)
  next
    case False
    with r show ?thesis unfolding nl by (simp add: numberToDouble_def)
  qed
qed

text \<open>The first code unit of a written amount: a digit, the minus sign or \<^verbatim>\<open>n\<close>.\<close>

lemma digit_or_minus_dispatch:
  "isDigit c \<or> c = 0x2D \<Longrightarrow>
   c \<noteq> 0x5B \<and> c \<noteq> 0x7B \<and> c \<noteq> 0x22 \<and> c \<noteq> 0x74 \<and> c \<noteq> 0x66 \<and> c \<noteq> 0x6E \<and> \<not> isJsonWs c"
  by (auto simp: isDigit_def isJsonWs_def word_le_nat_alt)

lemma parseValue_amount:
  "parseValue (Suc n) (numberToJSON a @ 0x2C # r) = Some (amountValue a, 0x2C # r)"
proof (cases a)
  case (Num x)
  obtain c cs where i: "numberToString x = c # cs" and d: "isDigit c \<or> c = 0x2D"
    using numberToString_head by blast
  from digit_or_minus_dispatch [OF d]
  have "parseValue (Suc n) (numberToString x @ 0x2C # r) = parseNumber (numberToString x @ 0x2C # r)"
    by (simp add: i)
  then show ?thesis by (simp only: parseNumber_numberToString Num numberToJSON_def amountValue_def jsnum.case)
qed (simp_all add: numberToJSON_def amountValue_def ascii_def expectWord_def)

lemma skipWs_amount: "skipWs (numberToJSON a @ r) = numberToJSON a @ r"
proof (cases a)
  case (Num x)
  obtain c cs where i: "numberToString x = c # cs" and d: "isDigit c \<or> c = 0x2D"
    using numberToString_head by blast
  from digit_or_minus_dispatch [OF d] show ?thesis
    by (simp add: i skipWs_def Num numberToJSON_def)
qed (simp_all add: numberToJSON_def ascii_def skipWs_def isJsonWs_def)

lemma parseValue_string:
  "parseValue (Suc n) (quoteJSON x @ r) = Some (JString x, r)"
  by (simp add: quoteJSON_def parseChars_escapeChars del: parseChars.simps)

lemma skipWs_string: "skipWs (quoteJSON x @ r) = quoteJSON x @ r"
  by (simp add: quoteJSON_def skipWs_def isJsonWs_def)

subsection \<open>Records in JSON text\<close>

lemma parseChars_plain_run:
  "list_all (\<lambda>c. c \<noteq> 0x22 \<and> c \<noteq> 0x5C \<and> \<not> c < 0x20) s \<Longrightarrow>
   parseChars (s @ 0x22 # r) = Some (s, r)"
  by (induction s) (simp_all add: consFst_def)

lemma parseChars_key:
  "k \<in> {''id'', ''name'', ''amount'', ''type'', ''createdAt''} \<Longrightarrow>
   parseChars (ascii k @ 0x22 # r) = Some (ascii k, r)"
  by (rule parseChars_plain_run) (auto simp: ascii_def)

lemma member_more:
  assumes k: "k \<in> {''id'', ''name'', ''amount'', ''type'', ''createdAt''}"
    and v: "parseValue n (V @ 0x2C # r) = Some (v, 0x2C # r)"
    and w: "skipWs (V @ 0x2C # r) = V @ 0x2C # r"
    and w': "skipWs r = r"
  shows "parseMembers (Suc n) (jsonKey k @ V @ 0x2C # r) = consFst (ascii k, v) (parseMembers n r)"
proof -
  have s1: "skipWs (0x3A # V @ 0x2C # r) = 0x3A # V @ 0x2C # r"
    by (simp add: skipWs_def isJsonWs_def)
  have s2: "skipWs (0x2C # r) = 0x2C # r" by (simp add: skipWs_def isJsonWs_def)
  have "parseMembers (Suc n) (0x22 # ascii k @ 0x22 # 0x3A # V @ 0x2C # r)
        = consFst (ascii k, v) (parseMembers n r)"
    by (simp add: parseChars_key [OF k] s1 s2 startsWith_def v w w' del: parseChars.simps)
  then show ?thesis by (simp add: jsonKey_def)
qed

lemma member_last:
  assumes k: "k \<in> {''id'', ''name'', ''amount'', ''type'', ''createdAt''}"
    and v: "parseValue n (V @ 0x7D # r) = Some (v, 0x7D # r)"
    and w: "skipWs (V @ 0x7D # r) = V @ 0x7D # r"
  shows "parseMembers (Suc n) (jsonKey k @ V @ 0x7D # r) = Some ([(ascii k, v)], r)"
proof -
  have s1: "skipWs (0x3A # V @ 0x7D # r) = 0x3A # V @ 0x7D # r"
    by (simp add: skipWs_def isJsonWs_def)
  have s2: "skipWs (0x7D # r) = 0x7D # r" by (simp add: skipWs_def isJsonWs_def)
  have "parseMembers (Suc n) (0x22 # ascii k @ 0x22 # 0x3A # V @ 0x7D # r)
        = Some ([(ascii k, v)], r)"
    by (simp add: parseChars_key [OF k] s1 s2 startsWith_def v w del: parseChars.simps)
  then show ?thesis by (simp add: jsonKey_def)
qed

lemma skipWs_key: "skipWs (jsonKey k @ r) = jsonKey k @ r"
  by (simp add: jsonKey_def skipWs_def isJsonWs_def)

lemma parseMembers_transaction:
  "parseMembers (n + 6)
     (jsonKey ''id'' @ quoteJSON (id t) @ 0x2C # jsonKey ''name'' @ quoteJSON (name t)
      @ 0x2C # jsonKey ''amount'' @ numberToJSON (amount t)
      @ 0x2C # jsonKey ''type'' @ quoteJSON (typeString (type t))
      @ 0x2C # jsonKey ''createdAt'' @ quoteJSON (createdAt t) @ 0x7D # r)
   = Some ([(ascii ''id'', JString (id t)), (ascii ''name'', JString (name t)),
            (ascii ''amount'', amountValue (amount t)),
            (ascii ''type'', JString (typeString (type t))),
            (ascii ''createdAt'', JString (createdAt t))], r)"
proof -
  let ?m5 = "jsonKey ''createdAt'' @ quoteJSON (createdAt t) @ 0x7D # r"
  let ?m4 = "jsonKey ''type'' @ quoteJSON (typeString (type t)) @ 0x2C # ?m5"
  let ?m3 = "jsonKey ''amount'' @ numberToJSON (amount t) @ 0x2C # ?m4"
  let ?m2 = "jsonKey ''name'' @ quoteJSON (name t) @ 0x2C # ?m3"
  let ?m1 = "jsonKey ''id'' @ quoteJSON (id t) @ 0x2C # ?m2"
  have e1: "n + 1 = Suc n" and e2: "n + 2 = Suc (n + 1)" and e3: "n + 3 = Suc (n + 2)"
    and e4: "n + 4 = Suc (n + 3)" and e5: "n + 5 = Suc (n + 4)" and e6: "n + 6 = Suc (n + 5)"
    by simp_all
  have p5: "parseMembers (n + 2) ?m5 = Some ([(ascii ''createdAt'', JString (createdAt t))], r)"
    unfolding e2 e1
    by (rule member_last) (simp_all only: parseValue_string skipWs_string, simp)
  have p4: "parseMembers (n + 3) ?m4
            = consFst (ascii ''type'', JString (typeString (type t))) (parseMembers (n + 2) ?m5)"
    unfolding e3 unfolding e2
    by (rule member_more) (simp_all only: parseValue_string skipWs_string skipWs_key, simp)
  have p3: "parseMembers (n + 4) ?m3
            = consFst (ascii ''amount'', amountValue (amount t)) (parseMembers (n + 3) ?m4)"
    unfolding e4 unfolding e3
    by (rule member_more) (simp_all only: parseValue_amount skipWs_amount skipWs_key, simp)
  have p2: "parseMembers (n + 5) ?m2
            = consFst (ascii ''name'', JString (name t)) (parseMembers (n + 4) ?m3)"
    unfolding e5 unfolding e4
    by (rule member_more) (simp_all only: parseValue_string skipWs_string skipWs_key, simp)
  have p1: "parseMembers (n + 6) ?m1
            = consFst (ascii ''id'', JString (id t)) (parseMembers (n + 5) ?m2)"
    unfolding e6 unfolding e5
    by (rule member_more) (simp_all only: parseValue_string skipWs_string skipWs_key, simp)
  show ?thesis
    by (simp only: p1 p2 p3 p4 p5) (simp add: consFst_def)
qed

lemma transactionToJSON_unfold:
  "transactionToJSON t @ r =
     0x7B # jsonKey ''id'' @ quoteJSON (id t) @ 0x2C # jsonKey ''name'' @ quoteJSON (name t)
      @ 0x2C # jsonKey ''amount'' @ numberToJSON (amount t)
      @ 0x2C # jsonKey ''type'' @ quoteJSON (typeString (type t))
      @ 0x2C # jsonKey ''createdAt'' @ quoteJSON (createdAt t) @ 0x7D # r"
  by (simp add: transactionToJSON_def)

lemma parseValue_transaction:
  "parseValue (n + 7) (transactionToJSON t @ r) = Some (transactionValue t, r)"
proof -
  have w: "skipWs (jsonKey ''id'' @ x) = jsonKey ''id'' @ x" for x by (rule skipWs_key)
  have nb: "\<not> startsWith 0x7D (jsonKey ''id'' @ x)" for x
    by (simp add: startsWith_def jsonKey_def)
  have e: "n + 7 = Suc (n + 6)" by simp
  show ?thesis
    unfolding transactionToJSON_unfold e
    by (subst parseValue.simps)
       (simp only: list.case w nb Let_def parseMembers_transaction transactionValue_def,
        simp)
qed

subsection \<open>The collection in JSON text\<close>

lemma skipWs_transaction: "skipWs (transactionToJSON t @ r) = transactionToJSON t @ r"
  unfolding transactionToJSON_unfold by (simp add: skipWs_def isJsonWs_def)

lemma transactionToJSON_head: "\<not> startsWith 0x5D (transactionToJSON t @ r)"
  unfolding transactionToJSON_unfold by (simp add: startsWith_def)

lemma joinComma_Cons:
  "joinComma (x # xs) @ r = (if xs = [] then x @ r else x @ 0x2C # joinComma xs @ r)"
  by (cases xs) simp_all

lemma parseElements_transactions:
  "parseElements (Suc (length ts + 7 + k)) (joinComma (map transactionToJSON (t # ts)) @ 0x5D # r)
   = Some (map transactionValue (t # ts), r)"
proof (induction ts arbitrary: t k)
  case Nil
  have pv: "parseValue (7 + k) (transactionToJSON t @ x) = Some (transactionValue t, x)" for x
    using parseValue_transaction [of k t x] by (simp only: add.commute)
  have s: "skipWs (0x5D # r) = 0x5D # r" by (simp add: skipWs_def isJsonWs_def)
  show ?case
    by (subst parseElements.simps)
       (simp add: pv s startsWith_def del: parseValue.simps)
next
  case (Cons u us)
  define N where "N = Suc (length us + 7 + k)"
  have f: "Suc (length (u # us) + 7 + k) = Suc N" by (simp add: N_def)
  have pv: "parseValue N (transactionToJSON t @ x) = Some (transactionValue t, x)" for x
  proof -
    have "N = (length us + k + 1) + 7" by (simp add: N_def)
    then show ?thesis by (simp only: parseValue_transaction)
  qed
  have s: "skipWs (0x2C # x) = 0x2C # x" for x by (simp add: skipWs_def isJsonWs_def)
  have j: "joinComma (map transactionToJSON (t # u # us)) @ 0x5D # r
           = transactionToJSON t @ 0x2C # joinComma (map transactionToJSON (u # us)) @ 0x5D # r"
    by simp
  have w: "skipWs (joinComma (map transactionToJSON (u # us)) @ 0x5D # r)
           = joinComma (map transactionToJSON (u # us)) @ 0x5D # r"
    by (cases us) (simp_all add: skipWs_transaction)
  have "parseElements (Suc N)
          (transactionToJSON t @ 0x2C # joinComma (map transactionToJSON (u # us)) @ 0x5D # r)
        = consFst (transactionValue t)
            (parseElements N (joinComma (map transactionToJSON (u # us)) @ 0x5D # r))"
    by (subst parseElements.simps)
       (simp add: pv s w startsWith_def
          del: parseValue.simps parseElements.simps joinComma.simps list.map)
  also have "\<dots> = consFst (transactionValue t) (Some (map transactionValue (u # us), r))"
    unfolding N_def by (simp only: Cons.IH)
  finally show ?case unfolding f j by (simp add: consFst_def)
qed

lemma transactionToJSON_length: "6 \<le> length (transactionToJSON t)"
  by (simp add: transactionToJSON_def jsonKey_def)

lemma joinComma_length:
  "length ts + 6 \<le> length (joinComma (map transactionToJSON (t # ts)))"
proof (induction ts arbitrary: t)
  case Nil
  show ?case using transactionToJSON_length [of t] by simp
next
  case (Cons u us)
  show ?case using Cons [of u] transactionToJSON_length [of t] by simp
qed

lemma JSON_parse_stringify:
  "JSON_parse (JSON_stringify ts) = Some (JArray (map transactionValue ts))"
proof (cases ts)
  case Nil
  then show ?thesis
    by (simp add: JSON_parse_def JSON_stringify_def skipWs_def isJsonWs_def startsWith_def)
next
  case (Cons t us)
  let ?body = "joinComma (map transactionToJSON (t # us))"
  from joinComma_length [of us t] obtain k where k: "length ?body = length us + 6 + k"
    by (metis le_Suc_ex)
  have len: "length (JSON_stringify ts) = Suc (length us + 7 + k)"
    using k Cons by (simp add: JSON_stringify_def)
  have w: "skipWs (?body @ [0x5D]) = ?body @ [0x5D]"
    by (cases us) (simp_all add: skipWs_transaction)
  have nb: "\<not> startsWith 0x5D (?body @ [0x5D])"
    by (cases us) (simp_all add: transactionToJSON_head)
  have el: "parseElements (Suc (length us + 7 + k)) (?body @ [0x5D])
            = Some (map transactionValue (t # us), [])"
    by (rule parseElements_transactions)
  have s0: "skipWs (0x5B # x) = 0x5B # x" for x by (simp add: skipWs_def isJsonWs_def)
  have pv: "parseValue (Suc (Suc (length us + 7 + k))) (0x5B # ?body @ [0x5D])
        = Some (JArray (map transactionValue (t # us)), [])"
    by (subst parseValue.simps)
       (simp only: list.case Let_def w nb el if_True if_False option.map prod.case refl)
  have tx: "JSON_stringify ts = 0x5B # ?body @ [0x5D]"
    using Cons by (simp add: JSON_stringify_def)
  have sw: "skipWs (JSON_stringify ts) = 0x5B # ?body @ [0x5D]"
    unfolding tx by (rule s0)
  have e: "skipWs [] = []" by (simp add: skipWs_def)
  show ?thesis
    unfolding JSON_parse_def len sw pv
    by (simp only: option.case prod.case e if_True refl Cons)
qed

lemma typeOfString_typeString: "typeOfString (typeString ty) = Some ty"
  by (cases ty) (simp_all add: typeOfString_def typeString_def)

lemma asTransaction_value: "finiteAmount t \<Longrightarrow> asTransaction (transactionValue t) = Some t"
proof -
  assume "finiteAmount t"
  then obtain x where a: "amount t = Num x" and d: "isDouble x"
    by (cases "amount t") (simp_all add: finiteAmount_def)
  from numberLiteral_reads [OF d] obtain m e where
    l: "numberLiteral x = JNumber m e" and v: "numberToDouble m e = Some (Num x)" by blast
  show ?thesis
    by (simp add: asTransaction_def transactionValue_def getProp_def ascii_def amountValue_def
        a l v typeOfString_typeString)
qed

lemma asTransaction_null:
  "\<forall>n. amount t \<noteq> Num n \<Longrightarrow> asTransaction (transactionValue t) = None"
  by (cases "amount t")
     (simp_all add: asTransaction_def transactionValue_def getProp_def ascii_def amountValue_def)

lemma asTransactions_values:
  "list_all finiteAmount ts \<Longrightarrow> asTransactions (map transactionValue ts) = Some ts"
  by (induction ts) (simp_all add: asTransaction_value)

lemma asTransactions_null:
  "t \<in> set ts \<Longrightarrow> \<forall>n. amount t \<noteq> Num n \<Longrightarrow> asTransactions (map transactionValue ts) = None"
  by (induction ts) (auto simp: asTransaction_null split: option.splits)

lemma JSON_stringify_nonempty: "JSON_stringify ts \<noteq> []"
  by (simp add: JSON_stringify_def)

lemma hydrate_persist:
  "list_all finiteAmount (transactions s) \<Longrightarrow>
   hydrate (persist True s ls) s' = Some (s'\<lparr>transactions := transactions s\<rparr>)"
  by (simp add: hydrate_def persist_def JSON_stringify_nonempty JSON_parse_stringify
      asTransactions_values)

lemma hydrate_persist_null:
  "t \<in> set (transactions s) \<Longrightarrow> \<forall>n. amount t \<noteq> Num n \<Longrightarrow>
   hydrate (persist True s ls) s' = None"
  by (simp add: hydrate_def persist_def JSON_stringify_nonempty JSON_parse_stringify
      asTransactions_null)

text \<open>Hydration installs whatever array the storage holds.\<close>

lemma hydrate_array:
  "ls STORAGE_KEY = Some raw \<Longrightarrow> raw \<noteq> [] \<Longrightarrow> JSON_parse raw = Some (JArray vs) \<Longrightarrow>
   asTransactions vs = Some ts \<Longrightarrow> hydrate ls s = Some (s\<lparr>transactions := ts\<rparr>)"
  by (simp add: hydrate_def)

text \<open>
  Every amount that the program makes is a number of the platform: the handlers and the
  hydrating effect keep this property of a collection. Of such a collection, every amount
  is either finite or not a whole number at all.
\<close>

lemma add_keeps_numbers:
  "list_all numberAmount (transactions s) \<Longrightarrow>
   list_all numberAmount (transactions (handleAddTransaction env s))"
proof (cases "parseInt (removeNonDigits (formAmount s))")
  case (Num n)
  have "numberAmount \<lparr> id = i, name = m, amount = toDouble n, type = k, createdAt = c \<rparr>"
    for i m k c
    by (cases "toDouble n") (simp_all add: numberAmount_def toDouble_isDouble)
  then show "list_all numberAmount (transactions s) \<Longrightarrow> ?thesis"
    by (simp add: handleAddTransaction_def Num)
qed (simp_all add: handleAddTransaction_def)

lemma remove_keeps_numbers:
  "list_all numberAmount (transactions s) \<Longrightarrow>
   list_all numberAmount (transactions (handleDeleteTransaction i s))"
  by (simp add: handleDeleteTransaction_def list_all_iff)

lemma numberToDouble_isDouble: "numberToDouble m e = Some (Num v) \<Longrightarrow> isDouble v"
  by (auto simp: numberToDouble_def toDouble_isDouble split: if_splits)

lemma asTransaction_number: "asTransaction v = Some t \<Longrightarrow> numberAmount t"
  by (auto simp: asTransaction_def numberAmount_def numberToDouble_isDouble
      split: json.splits option.splits jsnum.splits)

lemma asTransactions_numbers: "asTransactions vs = Some ts \<Longrightarrow> list_all numberAmount ts"
proof (induction vs arbitrary: ts)
  case Nil
  then show ?case by simp
next
  case (Cons v vs)
  then show ?case by (auto simp: asTransaction_number split: option.splits)
qed

lemma hydrate_keeps_numbers:
  "list_all numberAmount (transactions s) \<Longrightarrow> hydrate ls s = Some h \<Longrightarrow>
   list_all numberAmount (transactions h)"
  by (auto simp: hydrate_def asTransactions_numbers split: option.splits if_splits json.splits)

lemma number_finite_or_not:
  "numberAmount t \<Longrightarrow> finiteAmount t \<or> (\<forall>n. amount t \<noteq> Num n)"
  by (cases "amount t") (simp_all add: numberAmount_def finiteAmount_def)

text \<open>
  C9, as the code has it. After a collection whose amounts are all finite is written to
  the storage, hydrating from the storage installs a collection equal to the written one:
  the same records with the same field values in the same order, whatever the state held
  before. An amount that is not finite is written as \<^verbatim>\<open>null\<close>, and hydrating then does
  not give back a collection of transactions.
\<close>

theorem persist_hydrate_roundtrip:
  "(list_all finiteAmount (transactions s)
      \<longrightarrow> hydrate (persist True s ls) s' = Some (s'\<lparr>transactions := transactions s\<rparr>))
   \<and> ((\<exists>t \<in> set (transactions s). \<forall>n. amount t \<noteq> Num n)
      \<longrightarrow> hydrate (persist True s ls) s' = None)"
  using hydrate_persist [of s ls s'] hydrate_persist_null [of _ s ls s'] by blast

theorem persist_hydrate_roundtrip_witness:
  "list_all finiteAmount (transactions (initialState\<lparr>transactions :=
       [\<lparr>id = ascii ''2-b'', name = ascii ''Salary'', amount = Num 2000000, type = ThuNhap,
         createdAt = ascii ''2026-03-01T00:00:00.002Z''\<rparr>,
        \<lparr>id = ascii ''1-a'', name = ascii ''Coffee'', amount = Num 50000, type = ChiTieu,
         createdAt = ascii ''2026-03-01T00:00:00.001Z''\<rparr>]\<rparr>))
   \<and> hydrate (persist True (initialState\<lparr>transactions :=
       [\<lparr>id = ascii ''2-b'', name = ascii ''Salary'', amount = Num 2000000, type = ThuNhap,
         createdAt = ascii ''2026-03-01T00:00:00.002Z''\<rparr>,
        \<lparr>id = ascii ''1-a'', name = ascii ''Coffee'', amount = Num 50000, type = ChiTieu,
         createdAt = ascii ''2026-03-01T00:00:00.001Z''\<rparr>]\<rparr>) Map.empty) initialState
     = Some (initialState\<lparr>transactions :=
       [\<lparr>id = ascii ''2-b'', name = ascii ''Salary'', amount = Num 2000000, type = ThuNhap,
         createdAt = ascii ''2026-03-01T00:00:00.002Z''\<rparr>,
        \<lparr>id = ascii ''1-a'', name = ascii ''Coffee'', amount = Num 50000, type = ChiTieu,
         createdAt = ascii ''2026-03-01T00:00:00.001Z''\<rparr>]\<rparr>)
   \<and> (\<exists>t \<in> set (transactions (initialState\<lparr>transactions :=
       [\<lparr>id = ascii ''1-a'', name = ascii ''Coffee'', amount = PosInfinity, type = ChiTieu,
         createdAt = ascii ''2026-03-01T00:00:00.001Z''\<rparr>]\<rparr>)). \<forall>n. amount t \<noteq> Num n)
   \<and> hydrate (persist True (initialState\<lparr>transactions :=
       [\<lparr>id = ascii ''1-a'', name = ascii ''Coffee'', amount = PosInfinity, type = ChiTieu,
         createdAt = ascii ''2026-03-01T00:00:00.001Z''\<rparr>]\<rparr>) Map.empty) initialState = None"
proof -
  let ?ts = "[\<lparr>id = ascii ''2-b'', name = ascii ''Salary'', amount = Num 2000000, type = ThuNhap,
         createdAt = ascii ''2026-03-01T00:00:00.002Z''\<rparr>,
        \<lparr>id = ascii ''1-a'', name = ascii ''Coffee'', amount = Num 50000, type = ChiTieu,
         createdAt = ascii ''2026-03-01T00:00:00.001Z''\<rparr>]"
  let ?s = "initialState\<lparr>transactions := ?ts\<rparr>"
  let ?u = "initialState\<lparr>transactions :=
       [\<lparr>id = ascii ''1-a'', name = ascii ''Coffee'', amount = PosInfinity, type = ChiTieu,
         createdAt = ascii ''2026-03-01T00:00:00.001Z''\<rparr>]\<rparr>"
  have f: "list_all finiteAmount (transactions ?s)"
    by (simp add: finiteAmount_def isDouble_def toDouble_exact)
  have g: "\<exists>t \<in> set (transactions ?u). \<forall>n. amount t \<noteq> Num n" by simp
  from persist_hydrate_roundtrip [of ?s Map.empty initialState, THEN conjunct1] f
  have c1: "hydrate (persist True ?s Map.empty) initialState
            = Some (initialState\<lparr>transactions := transactions ?s\<rparr>)" by (rule mp)
  from persist_hydrate_roundtrip [of ?u Map.empty initialState, THEN conjunct2] g
  have c2: "hydrate (persist True ?u Map.empty) initialState = None" by (rule mp)
  from c1 have c1': "hydrate (persist True ?s Map.empty) initialState = Some ?s" by simp
  from f c1' g c2 show ?thesis by (intro conjI)
qed

text \<open>
  The claim as stated fails for a collection with an amount that is not finite. Such a
  collection is what hydration installs from a stored array in which an amount is written
  as \<^verbatim>\<open>1e309\<close>, which reads as infinity. Persisting it writes \<^verbatim>\<open>null\<close> for the amount,
  and hydrating from that text does not bring the collection back.
\<close>

theorem persist_hydrate_counterexample:
  \<open>hydrate (Map.empty(STORAGE_KEY \<mapsto>
       ascii ''[{"id":"1-a","name":"Coffee","amount":1e309,"type":"'' @ typeString ChiTieu
       @ ascii ''","createdAt":"2026-03-01T00:00:00.001Z"}]'')) initialState
     = Some (initialState\<lparr>transactions :=
         [\<lparr>id = ascii ''1-a'', name = ascii ''Coffee'', amount = PosInfinity, type = ChiTieu,
           createdAt = ascii ''2026-03-01T00:00:00.001Z''\<rparr>]\<rparr>)
   \<and> JSON_stringify
         [\<lparr>id = ascii ''1-a'', name = ascii ''Coffee'', amount = PosInfinity, type = ChiTieu,
           createdAt = ascii ''2026-03-01T00:00:00.001Z''\<rparr>]
     = ascii ''[{"id":"1-a","name":"Coffee","amount":null,"type":"'' @ typeString ChiTieu
       @ ascii ''","createdAt":"2026-03-01T00:00:00.001Z"}]''
   \<and> hydrate (persist True (initialState\<lparr>transactions :=
         [\<lparr>id = ascii ''1-a'', name = ascii ''Coffee'', amount = PosInfinity, type = ChiTieu,
           createdAt = ascii ''2026-03-01T00:00:00.001Z''\<rparr>]\<rparr>) Map.empty) initialState
     \<noteq> Some (initialState\<lparr>transactions :=
         [\<lparr>id = ascii ''1-a'', name = ascii ''Coffee'', amount = PosInfinity, type = ChiTieu,
           createdAt = ascii ''2026-03-01T00:00:00.001Z''\<rparr>]\<rparr>)\<close>
proof -
  let ?blob = \<open>ascii ''[{"id":"1-a","name":"Coffee","amount":1e309,"type":"'' @ typeString ChiTieu
       @ ascii ''","createdAt":"2026-03-01T00:00:00.001Z"}]''\<close>
  let ?a = "\<lparr>id = ascii ''1-a'', name = ascii ''Coffee'', amount = PosInfinity, type = ChiTieu,
             createdAt = ascii ''2026-03-01T00:00:00.001Z''\<rparr>"
  let ?v = "JObject [(ascii ''id'', JString (ascii ''1-a'')), (ascii ''name'', JString (ascii ''Coffee'')),
              (ascii ''amount'', JNumber 1 309),
              (ascii ''type'', JString (typeString ChiTieu)),
              (ascii ''createdAt'', JString (ascii ''2026-03-01T00:00:00.001Z''))]"
  have ne: "?blob \<noteq> []" by (simp add: ascii_def)
  have p: "JSON_parse ?blob = Some (JArray [?v])" by code_simp
  have inf: "numberToDouble 1 309 = Some PosInfinity" by code_simp
  have h: "hydrate (Map.empty(STORAGE_KEY \<mapsto> ?blob)) initialState
           = Some (initialState\<lparr>transactions := [?a]\<rparr>)"
  proof (rule hydrate_array [OF _ ne p])
    show "(Map.empty(STORAGE_KEY \<mapsto> ?blob)) STORAGE_KEY = Some ?blob" by simp
    show "asTransactions [?v] = Some [?a]"
      by (simp add: asTransaction_def getProp_def ascii_def inf typeOfString_typeString)
  qed
  have j: \<open>JSON_stringify [?a]
     = ascii ''[{"id":"1-a","name":"Coffee","amount":null,"type":"'' @ typeString ChiTieu
       @ ascii ''","createdAt":"2026-03-01T00:00:00.001Z"}]''\<close>
    by code_simp
  have "hydrate (persist True (initialState\<lparr>transactions := [?a]\<rparr>) Map.empty) initialState = None"
    by (rule hydrate_persist_null [of ?a]) simp_all
  then have r: "hydrate (persist True (initialState\<lparr>transactions := [?a]\<rparr>) Map.empty) initialState
     \<noteq> Some (initialState\<lparr>transactions := [?a]\<rparr>)" by simp
  from h j r show ?thesis by (intro conjI)
qed

subsection \<open>The invariants of the store\<close>

lemma add_keeps_valid:
  "list_all validTransaction (transactions s) \<Longrightarrow>
   list_all validTransaction (transactions (handleAddTransaction env s))"
  by (cases "parseInt (removeNonDigits (formAmount s))")
     (auto simp: handleAddTransaction_def validTransaction_def js_gt_toDouble)

lemma add_keeps_distinct:
  "distinct (map id (transactions s)) \<Longrightarrow>
   newId (dateNow env) (randomHex env) \<notin> id ` set (transactions s) \<Longrightarrow>
   distinct (map id (transactions (handleAddTransaction env s)))"
  by (cases "parseInt (removeNonDigits (formAmount s))")
     (auto simp: handleAddTransaction_def)

lemma remove_keeps_invariant:
  "storeInvariant (transactions s) \<Longrightarrow> storeInvariant (transactions (handleDeleteTransaction i s))"
  by (auto simp: storeInvariant_def handleDeleteTransaction_def list_all_iff distinct_map_filter)

text \<open>
  C8, as the code has it. The empty collection of a fresh start has positive amounts,
  names that are not empty and distinct ids. Adding keeps the amounts positive and the
  names not empty; it keeps the ids distinct when the new id, made of the clock reading
  and the random digits, is not yet in the collection. Removing keeps all three. Hydrating
  installs the stored array without a check, so a collection of finite amounts written
  by the persisting effect comes back with the invariants it had.
\<close>

theorem store_invariant_steps:
  "storeInvariant (transactions initialState)
   \<and> (list_all validTransaction (transactions s)
        \<longrightarrow> list_all validTransaction (transactions (handleAddTransaction env s)))
   \<and> (storeInvariant (transactions s)
        \<and> newId (dateNow env) (randomHex env) \<notin> id ` set (transactions s)
        \<longrightarrow> storeInvariant (transactions (handleAddTransaction env s)))
   \<and> (storeInvariant (transactions s)
        \<longrightarrow> storeInvariant (transactions (handleDeleteTransaction i s)))
   \<and> (storeInvariant (transactions s) \<and> list_all finiteAmount (transactions s)
        \<longrightarrow> (\<exists>h. hydrate (persist True s ls) s' = Some h \<and> storeInvariant (transactions h)))"
proof -
  have a: "storeInvariant (transactions initialState)"
    by (simp add: storeInvariant_def initialState_def)
  have b: "storeInvariant (transactions (handleAddTransaction env s))"
    if "storeInvariant (transactions s)"
      and "newId (dateNow env) (randomHex env) \<notin> id ` set (transactions s)"
    using that add_keeps_valid [of s env] add_keeps_distinct [of s env]
    by (simp add: storeInvariant_def)
  have c: "\<exists>h. hydrate (persist True s ls) s' = Some h \<and> storeInvariant (transactions h)"
    if "storeInvariant (transactions s)" and "list_all finiteAmount (transactions s)"
    using that by (simp add: hydrate_persist)
  from a b c add_keeps_valid [of s env] remove_keeps_invariant [of s i] show ?thesis by blast
qed

theorem store_invariant_steps_witness:
  "list_all validTransaction
     [\<lparr>id = ascii ''1-a'', name = ascii ''Coffee'', amount = Num 50000, type = ChiTieu,
       createdAt = ascii ''2026-03-01T00:00:00.001Z''\<rparr>]
   \<and> list_all finiteAmount
     [\<lparr>id = ascii ''1-a'', name = ascii ''Coffee'', amount = Num 50000, type = ChiTieu,
       createdAt = ascii ''2026-03-01T00:00:00.001Z''\<rparr>]
   \<and> storeInvariant
     [\<lparr>id = ascii ''1-a'', name = ascii ''Coffee'', amount = Num 50000, type = ChiTieu,
       createdAt = ascii ''2026-03-01T00:00:00.001Z''\<rparr>]
   \<and> newId 1772323199999 (ascii ''8f3c'')
       \<notin> id ` set [\<lparr>id = ascii ''1-a'', name = ascii ''Coffee'', amount = Num 50000, type = ChiTieu,
                       createdAt = ascii ''2026-03-01T00:00:00.001Z''\<rparr>]
   \<and> storeInvariant (transactions (handleAddTransaction
        \<lparr>dateNow = 1772323199999, randomHex = ascii ''8f3c'', newDateNow = 1772323200001\<rparr>
        (initialState\<lparr>transactions :=
           [\<lparr>id = ascii ''1-a'', name = ascii ''Coffee'', amount = Num 50000, type = ChiTieu,
             createdAt = ascii ''2026-03-01T00:00:00.001Z''\<rparr>],
           formName := ascii '' Tea '', formAmount := ascii ''30.000''\<rparr>)))
   \<and> storeInvariant (transactions (handleDeleteTransaction (ascii ''1-a'')
        (initialState\<lparr>transactions :=
           [\<lparr>id = ascii ''1-a'', name = ascii ''Coffee'', amount = Num 50000, type = ChiTieu,
             createdAt = ascii ''2026-03-01T00:00:00.001Z''\<rparr>],
           formName := ascii '' Tea '', formAmount := ascii ''30.000''\<rparr>)))
   \<and> (\<exists>h. hydrate (persist True
        (initialState\<lparr>transactions :=
           [\<lparr>id = ascii ''1-a'', name = ascii ''Coffee'', amount = Num 50000, type = ChiTieu,
             createdAt = ascii ''2026-03-01T00:00:00.001Z''\<rparr>],
           formName := ascii '' Tea '', formAmount := ascii ''30.000''\<rparr>) Map.empty) initialState
        = Some h \<and> storeInvariant (transactions h))"
proof -
  let ?t = "\<lparr>id = ascii ''1-a'', name = ascii ''Coffee'', amount = Num 50000, type = ChiTieu,
             createdAt = ascii ''2026-03-01T00:00:00.001Z''\<rparr>"
  let ?s = "initialState\<lparr>transactions := [?t], formName := ascii '' Tea '',
              formAmount := ascii ''30.000''\<rparr>"
  let ?env = "\<lparr>dateNow = 1772323199999, randomHex = ascii ''8f3c'', newDateNow = 1772323200001\<rparr>"
  have tr: "transactions ?s = [?t]" by simp
  have v: "list_all validTransaction [?t]"
    by (simp add: validTransaction_def js_gt_def ascii_def)
  then have inv: "storeInvariant [?t]" by (simp add: storeInvariant_def)
  have fin: "list_all finiteAmount [?t]"
    by (simp add: finiteAmount_def isDouble_def toDouble_exact)
  have e1: "newId 1772323199999 (ascii ''8f3c'') = ascii ''1772323199999-8f3c''"
    by (simp add: newId_def intToString_def natToString.simps ascii_def)
  have fresh: "newId 1772323199999 (ascii ''8f3c'') \<notin> id ` set [?t]"
    unfolding e1 by (simp add: ascii_def)
  note st = store_invariant_steps [of ?s ?env "ascii ''1-a''" Map.empty initialState]
  have h2: "storeInvariant (transactions ?s)
            \<and> newId (dateNow ?env) (randomHex ?env) \<notin> id ` set (transactions ?s)"
    unfolding tr using inv fresh by simp
  have h3: "storeInvariant (transactions ?s)" unfolding tr by (rule inv)
  from st [THEN conjunct2, THEN conjunct2, THEN conjunct1] h2
  have c1: "storeInvariant (transactions (handleAddTransaction ?env ?s))" by (rule mp)
  from st [THEN conjunct2, THEN conjunct2, THEN conjunct2, THEN conjunct1] h3
  have c2: "storeInvariant (transactions (handleDeleteTransaction (ascii ''1-a'') ?s))" by (rule mp)
  have h4: "storeInvariant (transactions ?s) \<and> list_all finiteAmount (transactions ?s)"
    unfolding tr using inv fin by simp
  from st [THEN conjunct2, THEN conjunct2, THEN conjunct2, THEN conjunct2] h4
  have c3: "\<exists>h. hydrate (persist True ?s Map.empty) initialState = Some h
            \<and> storeInvariant (transactions h)" by (rule mp)
  from v fin inv fresh c1 c2 c3 show ?thesis by (intro conjI)
qed

text \<open>
  The claim as stated fails after hydration and after adding. A stored array with a record
  of amount 0 and empty name, or with two records of one id, is installed as it is. Two
  additions for which the clock and the random source give the same readings produce two
  records with one id. A collection with an infinite amount has the three properties, and
  hydration does not read it back after it is persisted, as the amount is written as
  \<^verbatim>\<open>null\<close>.
\<close>

theorem store_invariant_counterexample:
  \<open>hydrate (Map.empty(STORAGE_KEY \<mapsto>
       ascii ''[{"id":"1-a","name":"","amount":0,"type":"'' @ typeString ChiTieu
       @ ascii ''","createdAt":"2026-03-01T00:00:00.001Z"},{"id":"1-a","name":"Tea","amount":30000,"type":"''
       @ typeString ChiTieu @ ascii ''","createdAt":"2026-03-01T00:00:00.002Z"}]'')) initialState
     = Some (initialState\<lparr>transactions :=
         [\<lparr>id = ascii ''1-a'', name = [], amount = Num 0, type = ChiTieu,
           createdAt = ascii ''2026-03-01T00:00:00.001Z''\<rparr>,
          \<lparr>id = ascii ''1-a'', name = ascii ''Tea'', amount = Num 30000, type = ChiTieu,
           createdAt = ascii ''2026-03-01T00:00:00.002Z''\<rparr>]\<rparr>)
   \<and> \<not> list_all validTransaction
         [\<lparr>id = ascii ''1-a'', name = [], amount = Num 0, type = ChiTieu,
           createdAt = ascii ''2026-03-01T00:00:00.001Z''\<rparr>,
          \<lparr>id = ascii ''1-a'', name = ascii ''Tea'', amount = Num 30000, type = ChiTieu,
           createdAt = ascii ''2026-03-01T00:00:00.002Z''\<rparr>]
   \<and> \<not> distinct (map id
         [\<lparr>id = ascii ''1-a'', name = [], amount = Num 0, type = ChiTieu,
           createdAt = ascii ''2026-03-01T00:00:00.001Z''\<rparr>,
          \<lparr>id = ascii ''1-a'', name = ascii ''Tea'', amount = Num 30000, type = ChiTieu,
           createdAt = ascii ''2026-03-01T00:00:00.002Z''\<rparr>])
   \<and> \<not> distinct (map id (transactions
         (handleAddTransaction
            \<lparr>dateNow = 1772323199999, randomHex = ascii ''8f3c'', newDateNow = 1772323199999\<rparr>
            ((handleAddTransaction
                \<lparr>dateNow = 1772323199999, randomHex = ascii ''8f3c'', newDateNow = 1772323199999\<rparr>
                (initialState\<lparr>formName := ascii ''Coffee'', formAmount := ascii ''50.000''\<rparr>))
             \<lparr>formName := ascii ''Tea'', formAmount := ascii ''30.000''\<rparr>))))
   \<and> storeInvariant
         [\<lparr>id = ascii ''1-a'', name = ascii ''Coffee'', amount = PosInfinity, type = ChiTieu,
           createdAt = ascii ''2026-03-01T00:00:00.001Z''\<rparr>]
   \<and> hydrate (persist True (initialState\<lparr>transactions :=
         [\<lparr>id = ascii ''1-a'', name = ascii ''Coffee'', amount = PosInfinity, type = ChiTieu,
           createdAt = ascii ''2026-03-01T00:00:00.001Z''\<rparr>]\<rparr>) Map.empty) initialState
     = None\<close>
proof -
  let ?blob = \<open>ascii ''[{"id":"1-a","name":"","amount":0,"type":"'' @ typeString ChiTieu
       @ ascii ''","createdAt":"2026-03-01T00:00:00.001Z"},{"id":"1-a","name":"Tea","amount":30000,"type":"''
       @ typeString ChiTieu @ ascii ''","createdAt":"2026-03-01T00:00:00.002Z"}]''\<close>
  let ?a = "\<lparr>id = ascii ''1-a'', name = [], amount = Num 0, type = ChiTieu,
             createdAt = ascii ''2026-03-01T00:00:00.001Z''\<rparr>"
  let ?b = "\<lparr>id = ascii ''1-a'', name = ascii ''Tea'', amount = Num 30000, type = ChiTieu,
             createdAt = ascii ''2026-03-01T00:00:00.002Z''\<rparr>"
  have ne: "?blob \<noteq> []" by (simp add: ascii_def)
  let ?va = "JObject [(ascii ''id'', JString (ascii ''1-a'')), (ascii ''name'', JString []),
              (ascii ''amount'', JNumber 0 0),
              (ascii ''type'', JString (typeString ChiTieu)),
              (ascii ''createdAt'', JString (ascii ''2026-03-01T00:00:00.001Z''))]"
  let ?vb = "JObject [(ascii ''id'', JString (ascii ''1-a'')), (ascii ''name'', JString (ascii ''Tea'')),
              (ascii ''amount'', JNumber 30000 0),
              (ascii ''type'', JString (typeString ChiTieu)),
              (ascii ''createdAt'', JString (ascii ''2026-03-01T00:00:00.002Z''))]"
  have p: "JSON_parse ?blob = Some (JArray [?va, ?vb])"
    by code_simp
  have n0: "numberToDouble 0 0 = Some (Num 0)" by (simp add: numberToDouble_def toDouble_exact)
  have n1: "numberToDouble 30000 0 = Some (Num 30000)"
    by (simp add: numberToDouble_def toDouble_exact)
  have h: "hydrate (Map.empty(STORAGE_KEY \<mapsto> ?blob)) initialState
           = Some (initialState\<lparr>transactions := [?a, ?b]\<rparr>)"
  proof (rule hydrate_array [OF _ ne p])
    show "(Map.empty(STORAGE_KEY \<mapsto> ?blob)) STORAGE_KEY = Some ?blob" by simp
    show "asTransactions [?va, ?vb] = Some [?a, ?b]"
      by (simp add: asTransaction_def getProp_def ascii_def n0 n1 typeOfString_typeString)
  qed
  have v: "\<not> list_all validTransaction [?a, ?b]" by (simp add: validTransaction_def)
  have d: "\<not> distinct (map id [?a, ?b])" by simp
  let ?env = "\<lparr>dateNow = 1772323199999, randomHex = ascii ''8f3c'', newDateNow = 1772323199999\<rparr>"
  have a1: "parseInt (removeNonDigits (ascii ''50.000'')) = Num 50000" by code_simp
  have a2: "parseInt (removeNonDigits (ascii ''30.000'')) = Num 30000" by code_simp
  have n1: "trim (ascii ''Coffee'') \<noteq> []" by code_simp
  have n2: "trim (ascii ''Tea'') \<noteq> []" by code_simp
  have g: "\<not> distinct (map id (transactions
         (handleAddTransaction ?env
            ((handleAddTransaction ?env
                (initialState\<lparr>formName := ascii ''Coffee'', formAmount := ascii ''50.000''\<rparr>))
             \<lparr>formName := ascii ''Tea'', formAmount := ascii ''30.000''\<rparr>))))"
    using n1 n2 by (simp add: handleAddTransaction_def a1 a2)
  let ?c = "\<lparr>id = ascii ''1-a'', name = ascii ''Coffee'', amount = PosInfinity, type = ChiTieu,
             createdAt = ascii ''2026-03-01T00:00:00.001Z''\<rparr>"
  have i: "storeInvariant [?c]"
    by (simp add: storeInvariant_def validTransaction_def js_gt_def ascii_def)
  have n: "hydrate (persist True (initialState\<lparr>transactions := [?c]\<rparr>) Map.empty) initialState
           = None"
    by (rule hydrate_persist_null [of ?c]) simp_all
  from h v d g i n show ?thesis by (intro conjI)
qed

subsection \<open>The calendar\<close>

lemma div_bounds:
  fixes a :: int
  shows "4 * (a div 4) \<le> a \<and> a \<le> 4 * (a div 4) + 3"
    and "100 * (a div 100) \<le> a \<and> a \<le> 100 * (a div 100) + 99"
    and "400 * (a div 400) \<le> a \<and> a \<le> 400 * (a div 400) + 399"
  by arith+

lemma DayFromYear_bounds:
  "146097 * (y - 1970) - 506 \<le> 400 * DayFromYear y
   \<and> 400 * DayFromYear y \<le> 146097 * (y - 1970) + 589"
proof -
  define a where "a = (y - 1969) div 4"
  define b where "b = (y - 1901) div 100"
  define c where "c = (y - 1601) div 400"
  have A: "4 * a \<le> y - 1969 \<and> y - 1969 \<le> 4 * a + 3"
    unfolding a_def by (rule div_bounds)
  have B: "100 * b \<le> y - 1901 \<and> y - 1901 \<le> 100 * b + 99"
    unfolding b_def by (rule div_bounds)
  have C: "400 * c \<le> y - 1601 \<and> y - 1601 \<le> 400 * c + 399"
    unfolding c_def by (rule div_bounds)
  have D: "DayFromYear y = 365 * (y - 1970) + a - b + c"
    by (simp add: DayFromYear_def a_def b_def c_def)
  from A B C show ?thesis unfolding D by auto
qed

text \<open>\<open>YearFromDay\<close> is the year of ECMA-262: the largest year that starts on or before the day.\<close>

lemma YearFromDay_correct:
  "DayFromYear (YearFromDay d) \<le> d \<and> d < DayFromYear (YearFromDay d + 1)"
proof -
  define k where "k = (400 * d) div 146097"
  have K: "146097 * k \<le> 400 * d \<and> 400 * d < 146097 * k + 146097"
    unfolding k_def by arith
  have lo: "DayFromYear (1970 + k - 1) \<le> d"
    using DayFromYear_bounds [of "1970 + k - 1"] K by auto
  have hi: "d < DayFromYear (1970 + k + 2)"
    using DayFromYear_bounds [of "1970 + k + 2"] K by auto
  have Y: "YearFromDay d =
           (if d < DayFromYear (1970 + k) then 1970 + k - 1
            else if DayFromYear (1970 + k + 1) \<le> d then 1970 + k + 1 else 1970 + k)"
    by (simp add: YearFromDay_def k_def Let_def)
  show ?thesis
  proof (cases "d < DayFromYear (1970 + k)")
    case True
    with lo Y show ?thesis by simp
  next
    case False
    show ?thesis
    proof (cases "DayFromYear (1970 + k + 1) \<le> d")
      case True
      with False hi Y show ?thesis by (simp add: add.commute add.left_commute)
    next
      case F2: False
      with False Y show ?thesis by simp
    qed
  qed
qed

lemma div_step_gen:
  fixes a n :: int
  assumes "0 < n"
  shows "(a + 1) div n - a div n = (if (a + 1) mod n = 0 then 1 else 0)"
proof -
  define q where "q = a div n"
  define r where "r = a mod n"
  have a: "a = n * q + r" and r: "0 \<le> r" "r < n"
    using assms by (simp_all add: q_def r_def)
  show ?thesis
  proof (cases "r + 1 = n")
    case True
    then have e: "a + 1 = n * (q + 1)" using a by (simp add: algebra_simps)
    have "(a + 1) div n = q + 1" using assms e by force
    moreover have "(a + 1) mod n = 0" by (simp add: e)
    ultimately show ?thesis by (simp add: q_def)
  next
    case False
    with r have lt: "r + 1 < n" by simp
    have e: "a + 1 = n * q + (r + 1)" using a by simp
    have "(n * q + (r + 1)) div n = q + (r + 1) div n"
      using assms by (simp only: div_mult_self4)
    also have "(r + 1) div n = 0" using r lt by (simp add: div_pos_pos_trivial)
    finally have "(n * q + (r + 1)) div n = q" by simp
    then have d: "(a + 1) div n = q" by (simp only: e)
    have "(a + 1) mod n = r + 1"
      by (metis add.commute add_increasing2 r(1) lt e mod_mult_self2 zero_le_one zmod_trivial_iff)
    with d r show ?thesis by (simp add: q_def)
  qed
qed

lemma mod_shift_gen:
  fixes y n k :: int
  shows "(y - n * k) mod n = 0 \<longleftrightarrow> y mod n = 0"
  by (metis diff_zero mod_diff_right_eq mod_mult_self1_is_0)

lemma leap_cases:
  "(p400 \<Longrightarrow> p100) \<Longrightarrow> (p100 \<Longrightarrow> p4) \<Longrightarrow>
   365 + (if p4 then 1 else 0) - (if p100 then 1 else 0) + (if p400 then 1 else 0)
   = (if p4 \<and> (\<not> p100 \<or> p400) then 366 else (365::int))"
  by (cases p4; cases p100; cases p400) simp_all

lemma year_length:
  "DayFromYear (y + 1) - DayFromYear y = (if InLeapYear y then 366 else 365)"
proof -
  define A0 where "A0 = (y - 1969) div 4"
  define A1 where "A1 = (y - 1969 + 1) div 4"
  define B0 where "B0 = (y - 1901) div 100"
  define B1 where "B1 = (y - 1901 + 1) div 100"
  define C0 where "C0 = (y - 1601) div 400"
  define C1 where "C1 = (y - 1601 + 1) div 400"
  have s: "y + 1 - 1969 = y - 1969 + 1" "y + 1 - 1901 = y - 1901 + 1" "y + 1 - 1601 = y - 1601 + 1"
    by simp_all
  have t: "y - 1969 + 1 = y - 4 * 492" "y - 1901 + 1 = y - 100 * 19" "y - 1601 + 1 = y - 400 * 4"
    by simp_all
  have a': "(y - 1969 + 1) mod 4 = 0 \<longleftrightarrow> y mod 4 = 0"
    unfolding t by (rule mod_shift_gen)
  have b': "(y - 1901 + 1) mod 100 = 0 \<longleftrightarrow> y mod 100 = 0"
    unfolding t by (rule mod_shift_gen)
  have c': "(y - 1601 + 1) mod 400 = 0 \<longleftrightarrow> y mod 400 = 0"
    unfolding t by (rule mod_shift_gen)
  have "A1 - A0 = (if (y - 1969 + 1) mod 4 = 0 then 1 else 0)"
    unfolding A1_def A0_def by (rule div_step_gen) simp
  then have a: "A1 - A0 = (if y mod 4 = 0 then 1 else 0)" by (simp only: a')
  have "B1 - B0 = (if (y - 1901 + 1) mod 100 = 0 then 1 else 0)"
    unfolding B1_def B0_def by (rule div_step_gen) simp
  then have b: "B1 - B0 = (if y mod 100 = 0 then 1 else 0)" by (simp only: b')
  have "C1 - C0 = (if (y - 1601 + 1) mod 400 = 0 then 1 else 0)"
    unfolding C1_def C0_def by (rule div_step_gen) simp
  then have c: "C1 - C0 = (if y mod 400 = 0 then 1 else 0)" by (simp only: c')
  have m1: "y mod 100 = 0 \<Longrightarrow> y mod 4 = 0" by auto
  have m2: "y mod 400 = 0 \<Longrightarrow> y mod 100 = 0" by auto
  have "DayFromYear (y + 1) = 365 * (y + 1 - 1970) + A1 - B1 + C1"
    unfolding DayFromYear_def A1_def B1_def C1_def by (simp only: s)
  moreover have "DayFromYear y = 365 * (y - 1970) + A0 - B0 + C0"
    unfolding DayFromYear_def A0_def B0_def C0_def by (rule refl)
  ultimately have "DayFromYear (y + 1) - DayFromYear y = 365 + (A1 - A0) - (B1 - B0) + (C1 - C0)"
    by simp
  also have "\<dots> = 365 + (if y mod 4 = 0 then 1 else 0) - (if y mod 100 = 0 then 1 else 0)
                    + (if y mod 400 = 0 then 1 else 0)"
    by (simp only: a b c)
  also have "\<dots> = (if y mod 4 = 0 \<and> (\<not> y mod 100 = 0 \<or> y mod 400 = 0) then 366 else 365)"
    by (rule leap_cases) (fact m2, fact m1)
  finally show ?thesis by (simp only: InLeapYear_def)
qed


lemma DayFromYear_step: "DayFromYear y < DayFromYear (y + 1)"
  using year_length [of y] by (simp split: if_splits)

lemma DayFromYear_mono: "a \<le> b \<Longrightarrow> DayFromYear a \<le> DayFromYear b"
proof (induction b rule: int_ge_induct)
  case base
  show ?case by simp
next
  case (step i)
  with DayFromYear_step [of i] show ?case by simp
qed

lemma YearFromDay_ge: "DayFromYear y \<le> d \<Longrightarrow> y \<le> YearFromDay d"
proof (rule ccontr)
  assume a: "DayFromYear y \<le> d" and "\<not> y \<le> YearFromDay d"
  then have "YearFromDay d + 1 \<le> y" by simp
  then have "DayFromYear (YearFromDay d + 1) \<le> DayFromYear y" by (rule DayFromYear_mono)
  with a YearFromDay_correct [of d] show False by simp
qed

lemma YearFromDay_le: "d < DayFromYear (y + 1) \<Longrightarrow> YearFromDay d \<le> y"
proof (rule ccontr)
  assume a: "d < DayFromYear (y + 1)" and "\<not> YearFromDay d \<le> y"
  then have "y + 1 \<le> YearFromDay d" by simp
  then have "DayFromYear (y + 1) \<le> DayFromYear (YearFromDay d)" by (rule DayFromYear_mono)
  with a YearFromDay_correct [of d] show False by simp
qed

lemma MonthFromDayWithinYear_range:
  "0 \<le> MonthFromDayWithinYear l w \<and> MonthFromDayWithinYear l w \<le> 11"
  by (simp add: MonthFromDayWithinYear_def Let_def)

text \<open>The year, month and date of a time value name its day.\<close>

lemma MakeDay_of_time:
  "MakeDay (YearFromTime t) (MonthFromTime t) (DateFromTime t) = Day t"
proof -
  let ?M = "MonthFromTime t"
  have r: "0 \<le> ?M" "?M \<le> 11"
    using MonthFromDayWithinYear_range unfolding MonthFromTime_def by blast+
  then have d: "?M div 12 = 0" "?M mod 12 = ?M" by simp_all
  show ?thesis
    unfolding MakeDay_def Let_def d
    by (simp add: DateFromTime_def DayWithinYear_def)
qed

subsection \<open>The bounds of the range filter\<close>

lemma monthStart_nonneg: "0 \<le> monthStart l k"
  by (simp add: monthStart_def Let_def)

lemma MakeDay_lower:
  assumes "1 \<le> m" and "m \<le> 12" and "1 \<le> d"
  shows "DayFromYear y \<le> MakeDay y (m - 1) d"
proof -
  from assms have "(m - 1) div 12 = 0" by simp
  then show ?thesis
    using monthStart_nonneg [of "InLeapYear y" "(m - 1) mod 12"] assms(3)
    by (simp add: MakeDay_def Let_def)
qed

text \<open>
  \<^verbatim>\<open>startOfDay\<close> and \<^verbatim>\<open>endOfDay\<close> of a valid date, outside the local years 0 to 99:
  the first and the last instant of the local day that holds the time value.
\<close>

lemma startOfDay_local:
  assumes "\<not> (0 \<le> YearFromTime (LocalTime tza t) \<and> YearFromTime (LocalTime tza t) \<le> 99)"
  shows "startOfDay tza (Num t) = TimeClip (Day (LocalTime tza t) * msPerDay - tza)"
  using assms
  by (auto simp: startOfDay_def MakeDay_of_time UTC_def MakeDate_def MakeTime_def)

lemma endOfDay_local:
  assumes "\<not> (0 \<le> YearFromTime (LocalTime tza t) \<and> YearFromTime (LocalTime tza t) \<le> 99)"
  shows "endOfDay tza (Num t) = TimeClip (Day (LocalTime tza t) * msPerDay + msPerDay - 1 - tza)"
proof -
  have e: "MakeDate D (MakeTime 23 59 59 999) = D * msPerDay + msPerDay - 1" for D
    by (simp add: MakeDate_def MakeTime_def msPerDay_def)
  show ?thesis
    using assms by (auto simp: endOfDay_def MakeDay_of_time UTC_def e)
qed

lemma Day_east: "0 \<le> z \<Longrightarrow> z < msPerDay \<Longrightarrow> Day (D * msPerDay + z) = D"
  by (simp add: Day_def msPerDay_def)

lemma Day_west: "- msPerDay \<le> z \<Longrightarrow> z < 0 \<Longrightarrow> Day (D * msPerDay + z) = D - 1"
proof -
  assume a: "- msPerDay \<le> z" "z < 0"
  have e: "D * msPerDay + z = (D - 1) * msPerDay + (z + msPerDay)" by (simp add: algebra_simps)
  have "0 \<le> z + msPerDay" "z + msPerDay < msPerDay" using a by simp_all
  then have "Day ((D - 1) * msPerDay + (z + msPerDay)) = D - 1" by (rule Day_east)
  then show ?thesis by (simp only: e)
qed

lemma dateOnly_parse:
  assumes "dateOnly fs = Some (y, m, d)"
  shows "Date_parse tza fs = TimeClip (MakeDay y (m - 1) d * msPerDay)
         \<and> 1 \<le> m \<and> m \<le> 12 \<and> 1 \<le> d \<and> d \<le> 31"
proof -
  from assms have p: "parseDatePart fs = Some ((y, m, d), [])"
    by (auto simp: dateOnly_def split: option.splits if_splits)
  then have "Date_parse tza fs = TimeClip (MakeDay y (m - 1) d * msPerDay)"
    by (simp add: Date_parse_def parseDateString_def MakeDate_def)
  moreover from p have "1 \<le> m \<and> m \<le> 12 \<and> 1 \<le> d \<and> d \<le> 31"
    by (auto simp: parseDatePart_def split: option.splits if_splits Option.bind_splits)
  ultimately show ?thesis by simp
qed

lemma date_only_year:
  assumes "1 \<le> m" "m \<le> 12" "1 \<le> d" "100 \<le> y"
  shows "100 \<le> YearFromDay (MakeDay y (m - 1) d)"
proof (rule YearFromDay_ge)
  have "DayFromYear 100 \<le> DayFromYear y" using assms(4) by (rule DayFromYear_mono)
  with MakeDay_lower [OF assms(1-3), of y] show "DayFromYear 100 \<le> MakeDay y (m - 1) d" by simp
qed

lemma date_only_year_before:
  assumes "1 \<le> m" "m \<le> 12" "1 \<le> d" "101 \<le> y"
  shows "100 \<le> YearFromDay (MakeDay y (m - 1) d - 1)"
proof (rule YearFromDay_ge)
  have "DayFromYear 101 \<le> DayFromYear y" using assms(4) by (rule DayFromYear_mono)
  moreover have "DayFromYear 100 < DayFromYear 101" using DayFromYear_step [of 100] by simp
  ultimately show "DayFromYear 100 \<le> MakeDay y (m - 1) d - 1"
    using MakeDay_lower [OF assms(1-3), of y] by simp
qed

text \<open>
  The bounds for a date-only string of a year from 100 on. In a zone at or east of UTC they
  are the first and the last instant of the day the string names.
\<close>

lemma range_bounds_east:
  assumes d: "dateOnly fs = Some (y, m, d)" and y: "100 \<le> y"
    and z: "0 \<le> tza" "tza < msPerDay"
    and r: "abs (MakeDay y (m - 1) d * msPerDay) \<le> maxTime"
  shows "startOfDay tza (Date_parse tza fs) = TimeClip (dayFirstInstant tza y m d)"
    and "endOfDay tza (Date_parse tza fs) = TimeClip (dayLastInstant tza y m d)"
proof -
  let ?D = "MakeDay y (m - 1) d"
  from dateOnly_parse [OF d, of tza] r
  have p: "Date_parse tza fs = Num (?D * msPerDay)" and v: "1 \<le> m" "m \<le> 12" "1 \<le> d"
    by (simp_all add: TimeClip_def)
  have day: "Day (LocalTime tza (?D * msPerDay)) = ?D"
    unfolding LocalTime_def using z by (rule Day_east)
  have "100 \<le> YearFromTime (LocalTime tza (?D * msPerDay))"
    unfolding YearFromTime_def day using v y by (rule date_only_year)
  then have ny: "\<not> (0 \<le> YearFromTime (LocalTime tza (?D * msPerDay))
                   \<and> YearFromTime (LocalTime tza (?D * msPerDay)) \<le> 99)" by simp
  show "startOfDay tza (Date_parse tza fs) = TimeClip (dayFirstInstant tza y m d)"
    unfolding p startOfDay_local [OF ny] day by (simp add: dayFirstInstant_def)
  show "endOfDay tza (Date_parse tza fs) = TimeClip (dayLastInstant tza y m d)"
    unfolding p endOfDay_local [OF ny] day
    by (rule arg_cong [where f = TimeClip]) (simp add: dayLastInstant_def dayFirstInstant_def)
qed

text \<open>
  In a zone west of UTC the same string gives the first and the last instant of the day
  before: the string is read as midnight UTC, which local time still counts to the
  previous day.
\<close>

lemma range_bounds_west:
  assumes d: "dateOnly fs = Some (y, m, d)" and y: "101 \<le> y"
    and z: "- msPerDay \<le> tza" "tza < 0"
    and r: "abs (MakeDay y (m - 1) d * msPerDay) \<le> maxTime"
  shows "startOfDay tza (Date_parse tza fs) = TimeClip (dayFirstInstant tza y m d - msPerDay)"
    and "endOfDay tza (Date_parse tza fs) = TimeClip (dayLastInstant tza y m d - msPerDay)"
proof -
  let ?D = "MakeDay y (m - 1) d"
  from dateOnly_parse [OF d, of tza] r
  have p: "Date_parse tza fs = Num (?D * msPerDay)" and v: "1 \<le> m" "m \<le> 12" "1 \<le> d"
    by (simp_all add: TimeClip_def)
  have day: "Day (LocalTime tza (?D * msPerDay)) = ?D - 1"
    unfolding LocalTime_def using z by (rule Day_west)
  have "100 \<le> YearFromTime (LocalTime tza (?D * msPerDay))"
    unfolding YearFromTime_def day using v y by (rule date_only_year_before)
  then have ny: "\<not> (0 \<le> YearFromTime (LocalTime tza (?D * msPerDay))
                   \<and> YearFromTime (LocalTime tza (?D * msPerDay)) \<le> 99)" by simp
  show "startOfDay tza (Date_parse tza fs) = TimeClip (dayFirstInstant tza y m d - msPerDay)"
    unfolding p startOfDay_local [OF ny] day
    by (rule arg_cong [where f = TimeClip]) (simp add: dayFirstInstant_def algebra_simps)
  show "endOfDay tza (Date_parse tza fs) = TimeClip (dayLastInstant tza y m d - msPerDay)"
    unfolding p endOfDay_local [OF ny] day
    by (rule arg_cong [where f = TimeClip])
       (simp add: dayLastInstant_def dayFirstInstant_def algebra_simps)
qed

lemma inWindow_bounds:
  "inWindow tza (case lo of None \<Rightarrow> NegInfinity | Some a \<Rightarrow> Num a)
                (case hi of None \<Rightarrow> PosInfinity | Some b \<Rightarrow> Num b) t
   = createdBetween tza lo hi t"
  using Date_parse_cases [of tza "createdAt t"]
  by (cases lo; cases hi) (auto simp: inWindow_def createdBetween_def getTime_def js_ge_def)

text \<open>
  The range filter in a zone at or east of UTC, for bounds that are absent or date-only
  strings of years from 100 on, within the time values a \<^verbatim>\<open>Date\<close> holds: a record is
  kept if and only if its instant lies between the first instant of the start day and the
  last instant of the end day, an absent bound not restricting.
\<close>

lemma range_filter_east:
  assumes z: "0 \<le> tza" "tza < msPerDay"
    and s: "fs \<noteq> [] \<Longrightarrow> dateOnly fs = Some (y1, m1, d1) \<and> 100 \<le> y1
              \<and> abs (MakeDay y1 (m1 - 1) d1 * msPerDay) \<le> maxTime
              \<and> abs (dayFirstInstant tza y1 m1 d1) \<le> maxTime"
    and e: "fe \<noteq> [] \<Longrightarrow> dateOnly fe = Some (y2, m2, d2) \<and> 100 \<le> y2
              \<and> abs (MakeDay y2 (m2 - 1) d2 * msPerDay) \<le> maxTime
              \<and> abs (dayLastInstant tza y2 m2 d2) \<le> maxTime"
  shows "filterByRange tza fs fe ts =
         filter (createdBetween tza
                   (if fs = [] then None else Some (dayFirstInstant tza y1 m1 d1))
                   (if fe = [] then None else Some (dayLastInstant tza y2 m2 d2))) ts"
proof -
  have a: "startOfDay tza (Date_parse tza fs) = Num (dayFirstInstant tza y1 m1 d1)" if "fs \<noteq> []"
    using s [OF that] range_bounds_east(1) [of fs y1 m1 d1 tza] z by (simp add: TimeClip_def)
  have b: "endOfDay tza (Date_parse tza fe) = Num (dayLastInstant tza y2 m2 d2)" if "fe \<noteq> []"
    using e [OF that] range_bounds_east(2) [of fe y2 m2 d2 tza] z by (simp add: TimeClip_def)
  have "filterByRange tza fs fe ts =
        filter (inWindow tza
                 (case (if fs = [] then None else Some (dayFirstInstant tza y1 m1 d1)) of
                    None \<Rightarrow> NegInfinity | Some a \<Rightarrow> Num a)
                 (case (if fe = [] then None else Some (dayLastInstant tza y2 m2 d2)) of
                    None \<Rightarrow> PosInfinity | Some b \<Rightarrow> Num b)) ts"
    using a b by (simp add: filterByRange_def getTime_def)
  also have "\<dots> = filter (createdBetween tza
                   (if fs = [] then None else Some (dayFirstInstant tza y1 m1 d1))
                   (if fe = [] then None else Some (dayLastInstant tza y2 m2 d2))) ts"
    by (intro filter_cong refl) (simp only: inWindow_bounds)
  finally show ?thesis .
qed

end
